theory Spec2Isabelle
  imports Main "HOL-Library.Sublist"
begin

section \<open>Python strings\<close>

text \<open>
  The scrapers \<^verbatim>\<open>src/kidung/kjpkjnkb.py\<close> and \<^verbatim>\<open>src/kidung/get_nkb_24.py\<close> work on
  Python \<^verbatim>\<open>str\<close> values, which are sequences of Unicode code points. An Isabelle
  \<^typ>\<open>char\<close> is a byte, so a Python string is modelled as a list of code points.
  \<open>ustr\<close> turns an ASCII literal into that representation.
\<close>

type_synonym ustr = "nat list"

definition ustr :: "string \<Rightarrow> ustr" where
  "ustr s = map of_char s"

abbreviation NL :: nat where "NL \<equiv> 10"
abbreviation CR :: nat where "CR \<equiv> 13"

text \<open>
  \<^verbatim>\<open>str.strip()\<close> without argument and the regular-expression class \<^verbatim>\<open>\s\<close> remove or
  match the code points for which CPython's \<^verbatim>\<open>Py_UNICODE_ISSPACE\<close> holds: U+0009 to U+000D,
  U+001C to U+0020, U+0085, U+00A0, U+1680, U+2000 to U+200A, U+2028, U+2029, U+202F,
  U+205F and U+3000.
\<close>

definition isspace :: "nat \<Rightarrow> bool" where
  "isspace c = ((9 \<le> c \<and> c \<le> 13) \<or> (28 \<le> c \<and> c \<le> 32) \<or> c = 133 \<or> c = 160
      \<or> c = 5760 \<or> (8192 \<le> c \<and> c \<le> 8202) \<or> c = 8232 \<or> c = 8233 \<or> c = 8239
      \<or> c = 8287 \<or> c = 12288)"

definition lstrip :: "ustr \<Rightarrow> ustr" where
  "lstrip s = dropWhile isspace s"

definition strip :: "ustr \<Rightarrow> ustr" where
  "strip s = rev (dropWhile isspace (rev (dropWhile isspace s)))"

text \<open>
  \<^verbatim>\<open>s.replace(old, new)\<close>: every non-overlapping occurrence of \<open>old\<close>, found from the left,
  is replaced. (For an empty \<open>old\<close> Python puts \<open>new\<close> before every character and at
  the end; the scrapers never call it so.)
\<close>

function str_replace :: "ustr \<Rightarrow> ustr \<Rightarrow> ustr \<Rightarrow> ustr" where
  "str_replace old new s =
     (if old = [] then new @ concat (map (\<lambda>c. c # new) s)
      else if s = [] then []
      else if prefix old s then new @ str_replace old new (drop (length old) s)
      else hd s # str_replace old new (tl s))"
  by pat_completeness auto
termination
  by (relation "measure (\<lambda>(old, new, s). length s)") auto

declare str_replace.simps [simp del]

text \<open>\<^verbatim>\<open>s.split(sep)\<close> for a separator of one character; the result is never empty.\<close>

fun split_on :: "nat \<Rightarrow> ustr \<Rightarrow> ustr list" where
  "split_on sep [] = [[]]"
| "split_on sep (c # cs) =
     (if c = sep then [] # split_on sep cs
      else (case split_on sep cs of [] \<Rightarrow> [[c]] | l # ls \<Rightarrow> (c # l) # ls))"

text \<open>\<^verbatim>\<open>sep.join(items)\<close>.\<close>

fun str_join :: "ustr \<Rightarrow> ustr list \<Rightarrow> ustr" where
  "str_join sep [] = []"
| "str_join sep [l] = l"
| "str_join sep (l # ls) = l @ sep @ str_join sep ls"

text \<open>
  \<^verbatim>\<open>re.sub(r"\n{3,}", "\n\n", s)\<close>: scanning from the left, a maximal run of three or more
  newlines is replaced by two newlines; any other character is copied.
\<close>

function sub_nl3 :: "ustr \<Rightarrow> ustr" where
  "sub_nl3 [] = []"
| "sub_nl3 (c # cs) =
     (if 3 \<le> length (takeWhile (\<lambda>x. x = NL) (c # cs))
      then [NL, NL] @ sub_nl3 (dropWhile (\<lambda>x. x = NL) (c # cs))
      else c # sub_nl3 cs)"
  by pat_completeness auto
termination
  by (relation "measure length") (auto simp: length_dropWhile_le less_Suc_eq_le split: if_splits)

text \<open>
  \<^verbatim>\<open>str.lower()\<close> and \<^verbatim>\<open>str.upper()\<close> on the ASCII letters. Code points outside ASCII are
  left as they are: their Unicode case mappings are data of the Python runtime, not of
  this repository. No code point outside ASCII lower-cases to one of the characters of
  \<^verbatim>\<open>"no such song"\<close>, so the membership tests below do not depend on that part. The
  scrapers take the upper case of a songbook code: of the letters that the title patterns
  match (ASCII letters, or the Kelvin sign, which is its own upper case) and of the code
  in an address, which is one of KJ, PKJ and NKB in their runs.
\<close>

definition str_lower :: "ustr \<Rightarrow> ustr" where
  "str_lower s = map (\<lambda>c. if 65 \<le> c \<and> c \<le> 90 then c + 32 else c) s"

definition str_upper :: "ustr \<Rightarrow> ustr" where
  "str_upper s = map (\<lambda>c. if 97 \<le> c \<and> c \<le> 122 then c - 32 else c) s"

text \<open>\<^verbatim>\<open>pat in s\<close> for strings.\<close>

fun contains :: "ustr \<Rightarrow> ustr \<Rightarrow> bool" where
  "contains pat [] = (pat = [])"
| "contains pat (c # cs) = (prefix pat (c # cs) \<or> contains pat cs)"

text \<open>\<^verbatim>\<open>str(n)\<close> and the \<^verbatim>\<open>{n}\<close> of an f-string for an integer: decimal digits.\<close>

function str_of_nat :: "nat \<Rightarrow> ustr" where
  "str_of_nat n = (if n < 10 then [48 + n] else str_of_nat (n div 10) @ [48 + n mod 10])"
  by pat_completeness auto
termination
  by (relation "measure id") auto

declare str_of_nat.simps [simp del]

definition str_of_int :: "int \<Rightarrow> ustr" where
  "str_of_int i = (if i < 0 then 45 # str_of_nat (nat (- i)) else str_of_nat (nat i))"

text \<open>
  The class \<^verbatim>\<open>\d\<close> of a \<^verbatim>\<open>str\<close> pattern and \<^verbatim>\<open>int(digits)\<close> know the decimal digits of
  every script (the Unicode category Nd). The repository does not hold that table; it is
  data of the Python runtime. \<open>DECIMAL_DIGITS\<close> is the table of Unicode 14.0, which
  CPython 3.11 carries: each entry is a run of code points, and in each run the digit
  values count up from 0, ten by ten. (CPython 3.11 refuses to convert a text of more
  than 4300 digits, unless configured otherwise; the numbers of hymns are far shorter and
  that limit is not part of the model.)
\<close>

definition in_ranges :: "(nat \<times> nat) list \<Rightarrow> nat \<Rightarrow> bool" where
  "in_ranges rs c = list_ex (\<lambda>r. fst r \<le> c \<and> c \<le> snd r) rs"

definition DECIMAL_DIGITS :: "(nat \<times> nat) list" where
  "DECIMAL_DIGITS =
     [(48, 57), (1632, 1641), (1776, 1785), (1984, 1993), (2406, 2415), (2534, 2543),
      (2662, 2671), (2790, 2799), (2918, 2927), (3046, 3055), (3174, 3183), (3302, 3311),
      (3430, 3439), (3558, 3567), (3664, 3673), (3792, 3801), (3872, 3881), (4160, 4169),
      (4240, 4249), (6112, 6121), (6160, 6169), (6470, 6479), (6608, 6617), (6784, 6793),
      (6800, 6809), (6992, 7001), (7088, 7097), (7232, 7241), (7248, 7257), (42528, 42537),
      (43216, 43225), (43264, 43273), (43472, 43481), (43504, 43513), (43600, 43609), (44016, 44025),
      (65296, 65305), (66720, 66729), (68912, 68921), (69734, 69743), (69872, 69881), (69942, 69951),
      (70096, 70105), (70384, 70393), (70736, 70745), (70864, 70873), (71248, 71257), (71360, 71369),
      (71472, 71481), (71904, 71913), (72016, 72025), (72784, 72793), (73040, 73049), (73120, 73129),
      (92768, 92777), (92864, 92873), (93008, 93017), (120782, 120831), (123200, 123209), (123632, 123641),
      (125264, 125273), (130032, 130041)]"

definition isdigit :: "nat \<Rightarrow> bool" where
  "isdigit c = in_ranges DECIMAL_DIGITS c"

definition digit_value :: "nat \<Rightarrow> nat" where
  "digit_value c =
     (case find (\<lambda>r. fst r \<le> c \<and> c \<le> snd r) DECIMAL_DIGITS of
        None \<Rightarrow> 0
      | Some r \<Rightarrow> (c - fst r) mod 10)"

definition int_of_digits :: "ustr \<Rightarrow> int" where
  "int_of_digits ds = foldl (\<lambda>acc d. 10 * acc + int (digit_value d)) 0 ds"

section \<open>Text normalizer\<close>

text \<open>
  \<^verbatim>\<open>
  PUNCT_MAP = {
      "\u2018": "'", "\u2019": "'", "\u201C": '"', "\u201D": '"',
      "\u2013": "-", "\u2014": "-", "\u00A0": " ",
  }

  def normalize_preserve_newlines(s: Optional[str]) -> Optional[str]:
      if s is None:
          return None
      for k, v in PUNCT_MAP.items():
          s = s.replace(k, v)
      s = s.replace("\r\n", "\n").replace("\r", "\n")
      s = "\n".join(ln.strip() for ln in s.split("\n"))
      s = re.sub(r"\n{3,}", "\n\n", s)
      return s.strip()
  \<close>
  \<^verbatim>\<open>get_nkb_24.normalize\<close> has the same body. A dictionary is iterated in insertion
  order, so \<open>PUNCT_MAP\<close> is a list of pairs.
\<close>

definition PUNCT_MAP :: "(ustr \<times> ustr) list" where
  "PUNCT_MAP =
     [([8216], [39]), ([8217], [39]), ([8220], [34]), ([8221], [34]),
      ([8211], [45]), ([8212], [45]), ([160], [32])]"

definition normalize_preserve_newlines :: "ustr option \<Rightarrow> ustr option" where
  "normalize_preserve_newlines s =
     (case s of
        None \<Rightarrow> None
      | Some s0 \<Rightarrow>
          (let s1 = fold (\<lambda>(k, v) s. str_replace k v s) PUNCT_MAP s0;
               s2 = str_replace [CR] [NL] (str_replace [CR, NL] [NL] s1);
               s3 = str_join [NL] (map strip (split_on NL s2));
               s4 = sub_nl3 s3
           in Some (strip s4)))"

definition normalize :: "ustr option \<Rightarrow> ustr option" where
  "normalize s =
     (case s of
        None \<Rightarrow> None
      | Some s0 \<Rightarrow>
          (let s1 = fold (\<lambda>(k, v) s. str_replace k v s) PUNCT_MAP s0;
               s2 = str_replace [CR] [NL] (str_replace [CR, NL] [NL] s1);
               s3 = str_join [NL] (map strip (split_on NL s2));
               s4 = sub_nl3 s3
           in Some (strip s4)))"

text \<open>
  The callers write \<^verbatim>\<open>normalize(x) or ""\<close> and \<^verbatim>\<open>normalize(el.get_text(...))\<close> on strings;
  \<open>normalize_str\<close> is the normalizer on a string that is present.
\<close>

definition normalize_str :: "ustr \<Rightarrow> ustr" where
  "normalize_str s = (case normalize_preserve_newlines (Some s) of None \<Rightarrow> [] | Some t \<Rightarrow> t)"

section \<open>Title parser\<close>

text \<open>
  Both scrapers match the page heading against a pattern that starts with
  \<^verbatim>\<open>(KJ|PKJ|NKB)\<close> under \<^verbatim>\<open>re.IGNORECASE\<close>. A pattern letter matches its upper-case and
  lower-case form; the letter K also matches U+212A (the Kelvin sign), whose lower-case
  form is k. The three alternatives start with different letters, so at most one of them
  matches at a given position.
\<close>

definition ieq :: "nat \<Rightarrow> nat \<Rightarrow> bool" where
  "ieq p c = (c = p \<or> c = p + 32 \<or> (p = 75 \<and> c = 8490))"

definition imatch :: "ustr \<Rightarrow> ustr \<Rightarrow> bool" where
  "imatch pat s = (length pat \<le> length s \<and> list_all2 ieq pat (take (length pat) s))"

definition match_code :: "ustr \<Rightarrow> (ustr \<times> ustr) option" where
  "match_code s =
     (if imatch (ustr ''KJ'') s then Some (take 2 s, drop 2 s)
      else if imatch (ustr ''PKJ'') s then Some (take 3 s, drop 3 s)
      else if imatch (ustr ''NKB'') s then Some (take 3 s, drop 3 s)
      else None)"

text \<open>
  The end of both anchored patterns is \<^verbatim>\<open>\s+(.*)$\<close>: at least one white-space
  character, then the rest of the line as the title group. The dot does not match a
  newline and \<^verbatim>\<open>$\<close> holds at the end of the string or before a newline that ends it.
  The greedy \<^verbatim>\<open>\s+\<close> takes the whole white-space run; giving characters back cannot help,
  because the title group would still have to reach the same line end.
\<close>

definition tail_group :: "ustr \<Rightarrow> ustr option" where
  "tail_group s =
     (let ws = takeWhile isspace s;
          r = dropWhile isspace s;
          g = takeWhile (\<lambda>c. c \<noteq> NL) r;
          after = dropWhile (\<lambda>c. c \<noteq> NL) r
      in if ws = [] then None
         else if after = [] \<or> after = [NL] then Some g
         else None)"

text \<open>
  \<^verbatim>\<open>kjpkjnkb.py\<close>:
  \<^verbatim>\<open>
  TITLE_RE = re.compile(r"^(KJ|PKJ|NKB)\s+(\d+)\s+[-\u2013]\s+(.*)$", re.IGNORECASE)
  \<close>
  The result holds the three groups. White space, digits and the dash are disjoint
  classes, so each greedy run is the only choice.
\<close>

definition TITLE_RE :: "ustr \<Rightarrow> (ustr \<times> ustr \<times> ustr) option" where
  "TITLE_RE t =
     (case match_code t of
        None \<Rightarrow> None
      | Some (g1, r1) \<Rightarrow>
          (let ws1 = takeWhile isspace r1; r2 = dropWhile isspace r1;
               g2 = takeWhile isdigit r2; r3 = dropWhile isdigit r2;
               ws2 = takeWhile isspace r3; r4 = dropWhile isspace r3
           in if ws1 = [] \<or> g2 = [] \<or> ws2 = [] then None
              else (case r4 of
                      [] \<Rightarrow> None
                    | c # r5 \<Rightarrow>
                        if c = 45 \<or> c = 8211
                        then (case tail_group r5 of
                                None \<Rightarrow> None
                              | Some g3 \<Rightarrow> Some (g1, g2, g3))
                        else None)))"

text \<open>
  \<^verbatim>\<open>
  def split_title(raw_title: str) -> Tuple[Optional[str], Optional[int], Optional[str]]:
      t = normalize_preserve_newlines(raw_title) or ""
      m = TITLE_RE.match(t)
      if not m:
          return None, None, t if t else None
      buku = m.group(1).upper()
      no_lagu = int(m.group(2))
      judul_text = m.group(3).strip() or None
      return buku, no_lagu, judul_text
  \<close>
\<close>

definition nonempty :: "ustr \<Rightarrow> ustr option" where
  "nonempty s = (if s = [] then None else Some s)"

definition split_title :: "ustr \<Rightarrow> ustr option \<times> int option \<times> ustr option" where
  "split_title raw_title =
     (let t = normalize_str raw_title
      in case TITLE_RE t of
           None \<Rightarrow> (None, None, nonempty t)
         | Some (g1, g2, g3) \<Rightarrow>
             (Some (str_upper g1), Some (int_of_digits g2), nonempty (strip g3)))"

text \<open>
  \<^verbatim>\<open>get_nkb_24.py\<close>:
  \<^verbatim>\<open>
  # Title patterns:
  # - Standard:  "NKB 024 \u2013 Title"
  # - Non-std:   "NKB 024, Title"
  TITLE_RE_STRICT = re.compile(r"^(KJ|PKJ|NKB)\s+0*(\d+)\s*(?:[-\u2014\u2013]|,)\s+(.*)$", re.IGNORECASE)
  TITLE_RE_FUZZY  = re.compile(r"(KJ|PKJ|NKB)\s+0*(\d+)\b", re.IGNORECASE)
  \<close>
  In \<^verbatim>\<open>0*(\d+)\<close> the zeros are taken greedily and the group gets the rest of the digit
  run; when the run is all zeros, the last zero is given back to the group.
\<close>

definition number_group :: "ustr \<Rightarrow> ustr" where
  "number_group ds =
     (let rest = dropWhile (\<lambda>c. c = 48) ds in if rest = [] then [48] else rest)"

definition is_separator :: "nat \<Rightarrow> bool" where
  "is_separator c = (c = 45 \<or> c = 8212 \<or> c = 8211 \<or> c = 44)"

definition TITLE_RE_STRICT :: "ustr \<Rightarrow> (ustr \<times> ustr \<times> ustr) option" where
  "TITLE_RE_STRICT t =
     (case match_code t of
        None \<Rightarrow> None
      | Some (g1, r1) \<Rightarrow>
          (let ws1 = takeWhile isspace r1; r2 = dropWhile isspace r1;
               ds = takeWhile isdigit r2; r3 = dropWhile isdigit r2;
               r4 = dropWhile isspace r3
           in if ws1 = [] \<or> ds = [] then None
              else (case r4 of
                      [] \<Rightarrow> None
                    | c # r5 \<Rightarrow>
                        if is_separator c
                        then (case tail_group r5 of
                                None \<Rightarrow> None
                              | Some g3 \<Rightarrow> Some (g1, number_group ds, g3))
                        else None)))"

text \<open>
  \<^verbatim>\<open>\b\<close> after the digits asks that the next character is no word character. For a
  \<^verbatim>\<open>str\<close> pattern the word characters are the underscore and the letters and digits of
  every script (the characters for which \<^verbatim>\<open>str.isalnum\<close> holds); \<open>WORD_CHARS\<close> is that
  table for Unicode 14.0, as runs of code points. The result of the search is the two
  groups and the text after the match.
\<close>

definition WORD_CHARS :: "(nat \<times> nat) list" where
  "WORD_CHARS =
     [(48, 57), (65, 90), (95, 95), (97, 122), (170, 170), (178, 179),
      (181, 181), (185, 186), (188, 190), (192, 214), (216, 246), (248, 705),
      (710, 721), (736, 740), (748, 748), (750, 750), (880, 884), (886, 887),
      (890, 893), (895, 895), (902, 902), (904, 906), (908, 908), (910, 929),
      (931, 1013), (1015, 1153), (1162, 1327), (1329, 1366), (1369, 1369), (1376, 1416),
      (1488, 1514), (1519, 1522), (1568, 1610), (1632, 1641), (1646, 1647), (1649, 1747),
      (1749, 1749), (1765, 1766), (1774, 1788), (1791, 1791), (1808, 1808), (1810, 1839),
      (1869, 1957), (1969, 1969), (1984, 2026), (2036, 2037), (2042, 2042), (2048, 2069),
      (2074, 2074), (2084, 2084), (2088, 2088), (2112, 2136), (2144, 2154), (2160, 2183),
      (2185, 2190), (2208, 2249), (2308, 2361), (2365, 2365), (2384, 2384), (2392, 2401),
      (2406, 2415), (2417, 2432), (2437, 2444), (2447, 2448), (2451, 2472), (2474, 2480),
      (2482, 2482), (2486, 2489), (2493, 2493), (2510, 2510), (2524, 2525), (2527, 2529),
      (2534, 2545), (2548, 2553), (2556, 2556), (2565, 2570), (2575, 2576), (2579, 2600),
      (2602, 2608), (2610, 2611), (2613, 2614), (2616, 2617), (2649, 2652), (2654, 2654),
      (2662, 2671), (2674, 2676), (2693, 2701), (2703, 2705), (2707, 2728), (2730, 2736),
      (2738, 2739), (2741, 2745), (2749, 2749), (2768, 2768), (2784, 2785), (2790, 2799),
      (2809, 2809), (2821, 2828), (2831, 2832), (2835, 2856), (2858, 2864), (2866, 2867),
      (2869, 2873), (2877, 2877), (2908, 2909), (2911, 2913), (2918, 2927), (2929, 2935),
      (2947, 2947), (2949, 2954), (2958, 2960), (2962, 2965), (2969, 2970), (2972, 2972),
      (2974, 2975), (2979, 2980), (2984, 2986), (2990, 3001), (3024, 3024), (3046, 3058),
      (3077, 3084), (3086, 3088), (3090, 3112), (3114, 3129), (3133, 3133), (3160, 3162),
      (3165, 3165), (3168, 3169), (3174, 3183), (3192, 3198), (3200, 3200), (3205, 3212),
      (3214, 3216), (3218, 3240), (3242, 3251), (3253, 3257), (3261, 3261), (3293, 3294),
      (3296, 3297), (3302, 3311), (3313, 3314), (3332, 3340), (3342, 3344), (3346, 3386),
      (3389, 3389), (3406, 3406), (3412, 3414), (3416, 3425), (3430, 3448), (3450, 3455),
      (3461, 3478), (3482, 3505), (3507, 3515), (3517, 3517), (3520, 3526), (3558, 3567),
      (3585, 3632), (3634, 3635), (3648, 3654), (3664, 3673), (3713, 3714), (3716, 3716),
      (3718, 3722), (3724, 3747), (3749, 3749), (3751, 3760), (3762, 3763), (3773, 3773),
      (3776, 3780), (3782, 3782), (3792, 3801), (3804, 3807), (3840, 3840), (3872, 3891),
      (3904, 3911), (3913, 3948), (3976, 3980), (4096, 4138), (4159, 4169), (4176, 4181),
      (4186, 4189), (4193, 4193), (4197, 4198), (4206, 4208), (4213, 4225), (4238, 4238),
      (4240, 4249), (4256, 4293), (4295, 4295), (4301, 4301), (4304, 4346), (4348, 4680),
      (4682, 4685), (4688, 4694), (4696, 4696), (4698, 4701), (4704, 4744), (4746, 4749),
      (4752, 4784), (4786, 4789), (4792, 4798), (4800, 4800), (4802, 4805), (4808, 4822),
      (4824, 4880), (4882, 4885), (4888, 4954), (4969, 4988), (4992, 5007), (5024, 5109),
      (5112, 5117), (5121, 5740), (5743, 5759), (5761, 5786), (5792, 5866), (5870, 5880),
      (5888, 5905), (5919, 5937), (5952, 5969), (5984, 5996), (5998, 6000), (6016, 6067),
      (6103, 6103), (6108, 6108), (6112, 6121), (6128, 6137), (6160, 6169), (6176, 6264),
      (6272, 6276), (6279, 6312), (6314, 6314), (6320, 6389), (6400, 6430), (6470, 6509),
      (6512, 6516), (6528, 6571), (6576, 6601), (6608, 6618), (6656, 6678), (6688, 6740),
      (6784, 6793), (6800, 6809), (6823, 6823), (6917, 6963), (6981, 6988), (6992, 7001),
      (7043, 7072), (7086, 7141), (7168, 7203), (7232, 7241), (7245, 7293), (7296, 7304),
      (7312, 7354), (7357, 7359), (7401, 7404), (7406, 7411), (7413, 7414), (7418, 7418),
      (7424, 7615), (7680, 7957), (7960, 7965), (7968, 8005), (8008, 8013), (8016, 8023),
      (8025, 8025), (8027, 8027), (8029, 8029), (8031, 8061), (8064, 8116), (8118, 8124),
      (8126, 8126), (8130, 8132), (8134, 8140), (8144, 8147), (8150, 8155), (8160, 8172),
      (8178, 8180), (8182, 8188), (8304, 8305), (8308, 8313), (8319, 8329), (8336, 8348),
      (8450, 8450), (8455, 8455), (8458, 8467), (8469, 8469), (8473, 8477), (8484, 8484),
      (8486, 8486), (8488, 8488), (8490, 8493), (8495, 8505), (8508, 8511), (8517, 8521),
      (8526, 8526), (8528, 8585), (9312, 9371), (9450, 9471), (10102, 10131), (11264, 11492),
      (11499, 11502), (11506, 11507), (11517, 11517), (11520, 11557), (11559, 11559), (11565, 11565),
      (11568, 11623), (11631, 11631), (11648, 11670), (11680, 11686), (11688, 11694), (11696, 11702),
      (11704, 11710), (11712, 11718), (11720, 11726), (11728, 11734), (11736, 11742), (11823, 11823),
      (12293, 12295), (12321, 12329), (12337, 12341), (12344, 12348), (12353, 12438), (12445, 12447),
      (12449, 12538), (12540, 12543), (12549, 12591), (12593, 12686), (12690, 12693), (12704, 12735),
      (12784, 12799), (12832, 12841), (12872, 12879), (12881, 12895), (12928, 12937), (12977, 12991),
      (13312, 19903), (19968, 42124), (42192, 42237), (42240, 42508), (42512, 42539), (42560, 42606),
      (42623, 42653), (42656, 42735), (42775, 42783), (42786, 42888), (42891, 42954), (42960, 42961),
      (42963, 42963), (42965, 42969), (42994, 43009), (43011, 43013), (43015, 43018), (43020, 43042),
      (43056, 43061), (43072, 43123), (43138, 43187), (43216, 43225), (43250, 43255), (43259, 43259),
      (43261, 43262), (43264, 43301), (43312, 43334), (43360, 43388), (43396, 43442), (43471, 43481),
      (43488, 43492), (43494, 43518), (43520, 43560), (43584, 43586), (43588, 43595), (43600, 43609),
      (43616, 43638), (43642, 43642), (43646, 43695), (43697, 43697), (43701, 43702), (43705, 43709),
      (43712, 43712), (43714, 43714), (43739, 43741), (43744, 43754), (43762, 43764), (43777, 43782),
      (43785, 43790), (43793, 43798), (43808, 43814), (43816, 43822), (43824, 43866), (43868, 43881),
      (43888, 44002), (44016, 44025), (44032, 55203), (55216, 55238), (55243, 55291), (63744, 64109),
      (64112, 64217), (64256, 64262), (64275, 64279), (64285, 64285), (64287, 64296), (64298, 64310),
      (64312, 64316), (64318, 64318), (64320, 64321), (64323, 64324), (64326, 64433), (64467, 64829),
      (64848, 64911), (64914, 64967), (65008, 65019), (65136, 65140), (65142, 65276), (65296, 65305),
      (65313, 65338), (65345, 65370), (65382, 65470), (65474, 65479), (65482, 65487), (65490, 65495),
      (65498, 65500), (65536, 65547), (65549, 65574), (65576, 65594), (65596, 65597), (65599, 65613),
      (65616, 65629), (65664, 65786), (65799, 65843), (65856, 65912), (65930, 65931), (66176, 66204),
      (66208, 66256), (66273, 66299), (66304, 66339), (66349, 66378), (66384, 66421), (66432, 66461),
      (66464, 66499), (66504, 66511), (66513, 66517), (66560, 66717), (66720, 66729), (66736, 66771),
      (66776, 66811), (66816, 66855), (66864, 66915), (66928, 66938), (66940, 66954), (66956, 66962),
      (66964, 66965), (66967, 66977), (66979, 66993), (66995, 67001), (67003, 67004), (67072, 67382),
      (67392, 67413), (67424, 67431), (67456, 67461), (67463, 67504), (67506, 67514), (67584, 67589),
      (67592, 67592), (67594, 67637), (67639, 67640), (67644, 67644), (67647, 67669), (67672, 67702),
      (67705, 67742), (67751, 67759), (67808, 67826), (67828, 67829), (67835, 67867), (67872, 67897),
      (67968, 68023), (68028, 68047), (68050, 68096), (68112, 68115), (68117, 68119), (68121, 68149),
      (68160, 68168), (68192, 68222), (68224, 68255), (68288, 68295), (68297, 68324), (68331, 68335),
      (68352, 68405), (68416, 68437), (68440, 68466), (68472, 68497), (68521, 68527), (68608, 68680),
      (68736, 68786), (68800, 68850), (68858, 68899), (68912, 68921), (69216, 69246), (69248, 69289),
      (69296, 69297), (69376, 69415), (69424, 69445), (69457, 69460), (69488, 69505), (69552, 69579),
      (69600, 69622), (69635, 69687), (69714, 69743), (69745, 69746), (69749, 69749), (69763, 69807),
      (69840, 69864), (69872, 69881), (69891, 69926), (69942, 69951), (69956, 69956), (69959, 69959),
      (69968, 70002), (70006, 70006), (70019, 70066), (70081, 70084), (70096, 70106), (70108, 70108),
      (70113, 70132), (70144, 70161), (70163, 70187), (70272, 70278), (70280, 70280), (70282, 70285),
      (70287, 70301), (70303, 70312), (70320, 70366), (70384, 70393), (70405, 70412), (70415, 70416),
      (70419, 70440), (70442, 70448), (70450, 70451), (70453, 70457), (70461, 70461), (70480, 70480),
      (70493, 70497), (70656, 70708), (70727, 70730), (70736, 70745), (70751, 70753), (70784, 70831),
      (70852, 70853), (70855, 70855), (70864, 70873), (71040, 71086), (71128, 71131), (71168, 71215),
      (71236, 71236), (71248, 71257), (71296, 71338), (71352, 71352), (71360, 71369), (71424, 71450),
      (71472, 71483), (71488, 71494), (71680, 71723), (71840, 71922), (71935, 71942), (71945, 71945),
      (71948, 71955), (71957, 71958), (71960, 71983), (71999, 71999), (72001, 72001), (72016, 72025),
      (72096, 72103), (72106, 72144), (72161, 72161), (72163, 72163), (72192, 72192), (72203, 72242),
      (72250, 72250), (72272, 72272), (72284, 72329), (72349, 72349), (72368, 72440), (72704, 72712),
      (72714, 72750), (72768, 72768), (72784, 72812), (72818, 72847), (72960, 72966), (72968, 72969),
      (72971, 73008), (73030, 73030), (73040, 73049), (73056, 73061), (73063, 73064), (73066, 73097),
      (73112, 73112), (73120, 73129), (73440, 73458), (73648, 73648), (73664, 73684), (73728, 74649),
      (74752, 74862), (74880, 75075), (77712, 77808), (77824, 78894), (82944, 83526), (92160, 92728),
      (92736, 92766), (92768, 92777), (92784, 92862), (92864, 92873), (92880, 92909), (92928, 92975),
      (92992, 92995), (93008, 93017), (93019, 93025), (93027, 93047), (93053, 93071), (93760, 93846),
      (93952, 94026), (94032, 94032), (94099, 94111), (94176, 94177), (94179, 94179), (94208, 100343),
      (100352, 101589), (101632, 101640), (110576, 110579), (110581, 110587), (110589, 110590), (110592, 110882),
      (110928, 110930), (110948, 110951), (110960, 111355), (113664, 113770), (113776, 113788), (113792, 113800),
      (113808, 113817), (119520, 119539), (119648, 119672), (119808, 119892), (119894, 119964), (119966, 119967),
      (119970, 119970), (119973, 119974), (119977, 119980), (119982, 119993), (119995, 119995), (119997, 120003),
      (120005, 120069), (120071, 120074), (120077, 120084), (120086, 120092), (120094, 120121), (120123, 120126),
      (120128, 120132), (120134, 120134), (120138, 120144), (120146, 120485), (120488, 120512), (120514, 120538),
      (120540, 120570), (120572, 120596), (120598, 120628), (120630, 120654), (120656, 120686), (120688, 120712),
      (120714, 120744), (120746, 120770), (120772, 120779), (120782, 120831), (122624, 122654), (123136, 123180),
      (123191, 123197), (123200, 123209), (123214, 123214), (123536, 123565), (123584, 123627), (123632, 123641),
      (124896, 124902), (124904, 124907), (124909, 124910), (124912, 124926), (124928, 125124), (125127, 125135),
      (125184, 125251), (125259, 125259), (125264, 125273), (126065, 126123), (126125, 126127), (126129, 126132),
      (126209, 126253), (126255, 126269), (126464, 126467), (126469, 126495), (126497, 126498), (126500, 126500),
      (126503, 126503), (126505, 126514), (126516, 126519), (126521, 126521), (126523, 126523), (126530, 126530),
      (126535, 126535), (126537, 126537), (126539, 126539), (126541, 126543), (126545, 126546), (126548, 126548),
      (126551, 126551), (126553, 126553), (126555, 126555), (126557, 126557), (126559, 126559), (126561, 126562),
      (126564, 126564), (126567, 126570), (126572, 126578), (126580, 126583), (126585, 126588), (126590, 126590),
      (126592, 126601), (126603, 126619), (126625, 126627), (126629, 126633), (126635, 126651), (127232, 127244),
      (130032, 130041), (131072, 173791), (173824, 177976), (177984, 178205), (178208, 183969), (183984, 191456),
      (194560, 195101), (196608, 201546)]"

definition is_word_char :: "nat \<Rightarrow> bool" where
  "is_word_char c = in_ranges WORD_CHARS c"

definition fuzzy_at :: "ustr \<Rightarrow> (ustr \<times> ustr \<times> ustr) option" where
  "fuzzy_at s =
     (case match_code s of
        None \<Rightarrow> None
      | Some (g1, r1) \<Rightarrow>
          (let ws1 = takeWhile isspace r1; r2 = dropWhile isspace r1;
               ds = takeWhile isdigit r2; r3 = dropWhile isdigit r2
           in if ws1 = [] \<or> ds = [] then None
              else if r3 \<noteq> [] \<and> is_word_char (hd r3) then None
              else Some (g1, number_group ds, r3)))"

fun TITLE_RE_FUZZY :: "ustr \<Rightarrow> (ustr \<times> ustr \<times> ustr) option" where
  "TITLE_RE_FUZZY [] = None"
| "TITLE_RE_FUZZY (c # cs) =
     (case fuzzy_at (c # cs) of
        Some m \<Rightarrow> Some m
      | None \<Rightarrow> TITLE_RE_FUZZY cs)"

text \<open>
  \<^verbatim>\<open>
  def split_title(raw_title: str) -> Tuple[Optional[str], Optional[int], Optional[str]]:
      t = normalize(raw_title) or ""
      m = TITLE_RE_STRICT.match(t)
      if m:
          buku = m.group(1).upper()
          no_lagu = int(m.group(2))
          judul_text = m.group(3).strip() or None
          return buku, no_lagu, judul_text
      m2 = TITLE_RE_FUZZY.search(t)
      if m2:
          buku = m2.group(1).upper()
          no_lagu = int(m2.group(2))
          rest = t[m2.end():].lstrip()
          rest = re.sub(r"^[-\u2014\u2013,]\s*", "", rest)
          judul_text = rest if rest else None
          return buku, no_lagu, judul_text
      return None, None, t if t else None
  \<close>
\<close>

definition drop_leading_separator :: "ustr \<Rightarrow> ustr" where
  "drop_leading_separator rest =
     (case rest of
        [] \<Rightarrow> []
      | c # r \<Rightarrow> if is_separator c then dropWhile isspace r else rest)"

definition split_title_nkb24 :: "ustr \<Rightarrow> ustr option \<times> int option \<times> ustr option" where
  "split_title_nkb24 raw_title =
     (let t = normalize_str raw_title
      in case TITLE_RE_STRICT t of
           Some (g1, g2, g3) \<Rightarrow>
             (Some (str_upper g1), Some (int_of_digits g2), nonempty (strip g3))
         | None \<Rightarrow>
             (case TITLE_RE_FUZZY t of
                Some (g1, g2, after) \<Rightarrow>
                  (let rest = drop_leading_separator (lstrip after)
                   in (Some (str_upper g1), Some (int_of_digits g2), nonempty rest))
              | None \<Rightarrow> (None, None, nonempty t)))"

section \<open>Lyrics page\<close>

text \<open>
  \<^verbatim>\<open>BeautifulSoup(html, "html.parser")\<close> is a library call; its result is a tree of tags
  and text nodes. The model starts at that tree: an element has a (lower-case) tag name,
  the values of its \<^verbatim>\<open>class\<close> attribute and its children; the document itself is the
  element that holds the top-level nodes. The parser is a parameter \<open>soup\<close> of the
  functions that receive page text.
\<close>

datatype node = Element ustr "ustr list" "node list" | TextNode ustr

text \<open>The nodes below a node, in document order.\<close>

fun descendants :: "node \<Rightarrow> node list" where
  "descendants (TextNode t) = []"
| "descendants (Element tag classes kids) = concat (map (\<lambda>k. k # descendants k) kids)"

text \<open>
  The two forms of CSS selector used: \<^verbatim>\<open>tag.class\<close> and \<^verbatim>\<open>.class\<close>.
  \<^verbatim>\<open>el.select(sel)\<close> gives the matching elements below \<open>el\<close> in document order,
  \<^verbatim>\<open>el.select_one(sel)\<close> the first of them or \<^verbatim>\<open>None\<close>.
\<close>

datatype selector = TagClass ustr ustr | ClassOnly ustr

fun sel_matches :: "selector \<Rightarrow> node \<Rightarrow> bool" where
  "sel_matches sel (TextNode t) = False"
| "sel_matches (TagClass tag cls) (Element tag' classes kids) = (tag' = tag \<and> cls \<in> set classes)"
| "sel_matches (ClassOnly cls) (Element tag' classes kids) = (cls \<in> set classes)"

definition select :: "selector \<Rightarrow> node \<Rightarrow> node list" where
  "select sel el = filter (sel_matches sel) (descendants el)"

definition select_one :: "selector \<Rightarrow> node \<Rightarrow> node option" where
  "select_one sel el = (case select sel el of [] \<Rightarrow> None | x # xs \<Rightarrow> Some x)"

text \<open>
  \<^verbatim>\<open>el.get_text(separator=sep, strip=True)\<close>: the text nodes below \<open>el\<close>, each stripped,
  the empty ones dropped, joined by \<open>sep\<close>.
\<close>

fun all_strings :: "node \<Rightarrow> ustr list" where
  "all_strings (TextNode t) = [t]"
| "all_strings (Element tag classes kids) = concat (map all_strings kids)"

definition get_text :: "ustr \<Rightarrow> node \<Rightarrow> ustr" where
  "get_text sep el = str_join sep (filter (\<lambda>s. s \<noteq> []) (map strip (all_strings el)))"

definition node_classes :: "node \<Rightarrow> ustr list" where
  "node_classes n = (case n of TextNode t \<Rightarrow> [] | Element tag classes kids \<Rightarrow> classes)"

text \<open>
  \<^verbatim>\<open>
  def _text_or_none(parent: BeautifulSoup, selector: str) -> Optional[str]:
      el = parent.select_one(selector)
      return normalize_preserve_newlines(el.get_text(separator=" ", strip=True)) if el else None
  \<close>
  A tag is true in a condition whatever it contains, so \<^verbatim>\<open>if el\<close> and \<^verbatim>\<open>if not lagu\<close>
  test for \<^verbatim>\<open>None\<close>.
\<close>

definition text_or_none :: "node \<Rightarrow> selector \<Rightarrow> ustr option" where
  "text_or_none parent sel =
     (case select_one sel parent of
        None \<Rightarrow> None
      | Some el \<Rightarrow> normalize_preserve_newlines (Some (get_text [32] el)))"

text \<open>
  \<^verbatim>\<open>re.search(r"(\d+)\s*$", s)\<close>: the leftmost match starts at the head of the digit run
  that is followed by white space only, and its group is that whole run.
  \<^verbatim>\<open>re.search(r"\d+", s)\<close>: the first digit run.
\<close>

definition search_trailing_digits :: "ustr \<Rightarrow> ustr option" where
  "search_trailing_digits s =
     (let body = dropWhile isspace (rev s);
          ds = rev (takeWhile isdigit body)
      in if ds = [] then None else Some ds)"

definition search_digits :: "ustr \<Rightarrow> ustr option" where
  "search_digits s =
     (let ds = takeWhile isdigit (dropWhile (\<lambda>c. \<not> isdigit c) s)
      in if ds = [] then None else Some ds)"

text \<open>
  The dictionaries built by the parser, as records:
  \<^verbatim>\<open>{"type": ..., "no": ..., "text": ...}\<close> and \<^verbatim>\<open>{"lirik_no": ..., "parts": [...]}\<close>.
\<close>

record part =
  part_type :: ustr
  part_no :: "ustr option"
  part_text :: "ustr option"

record block =
  lirik_no :: "ustr option"
  parts :: "part list"

text \<open>
  \<^verbatim>\<open>
  def parse_alkitab_lirik_blocks(lirik_div: BeautifulSoup) -> Dict[str, object]:
      lirik_no_raw = _text_or_none(lirik_div, "div.lirik_no")
      lirik_no = None
      if lirik_no_raw:
          m = re.search(r"(\d+)\s*$", lirik_no_raw)
          lirik_no = m.group(1) if m else lirik_no_raw

      parts = []
      for b in lirik_div.select("div.bait"):
          classes = b.get("class", [])
          is_reff = "reff" in classes

          lines = [
              normalize_preserve_newlines(x.get_text(separator=" ", strip=True))
              for x in b.select(".baris")
          ]
          lines = [x for x in lines if x]
          text = "\n".join(lines) if lines else None

          if is_reff:
              parts.append({"type": "reff", "no": None, "text": text})
          else:
              no_raw = _text_or_none(b, ".bait-no")
              no = None
              if no_raw:
                  m2 = re.search(r"\d+", no_raw)
                  no = m2.group(0) if m2 else no_raw
              parts.append({"type": "bait", "no": no, "text": text})

      return {"lirik_no": lirik_no, "parts": parts}
  \<close>
\<close>

definition parse_bait :: "node \<Rightarrow> part" where
  "parse_bait b =
     (let classes = node_classes b;
          is_reff = (ustr ''reff'' \<in> set classes);
          lines = map (\<lambda>x. normalize_str (get_text [32] x)) (select (ClassOnly (ustr ''baris'')) b);
          lines = filter (\<lambda>x. x \<noteq> []) lines;
          text = (if lines \<noteq> [] then Some (str_join [NL] lines) else None)
      in if is_reff then \<lparr>part_type = ustr ''reff'', part_no = None, part_text = text\<rparr>
         else (let no_raw = text_or_none b (ClassOnly (ustr ''bait-no''));
                   no = (case no_raw of
                           None \<Rightarrow> None
                         | Some r \<Rightarrow>
                             if r = [] then None
                             else (case search_digits r of
                                     Some g \<Rightarrow> Some g
                                   | None \<Rightarrow> no_raw))
               in \<lparr>part_type = ustr ''bait'', part_no = no, part_text = text\<rparr>))"

definition parse_alkitab_lirik_blocks :: "node \<Rightarrow> block" where
  "parse_alkitab_lirik_blocks lirik_div =
     (let lirik_no_raw = text_or_none lirik_div (TagClass (ustr ''div'') (ustr ''lirik_no''));
          lirik_no = (case lirik_no_raw of
                        None \<Rightarrow> None
                      | Some r \<Rightarrow>
                          if r = [] then None
                          else (case search_trailing_digits r of
                                  Some g \<Rightarrow> Some g
                                | None \<Rightarrow> lirik_no_raw))
      in \<lparr>lirik_no = lirik_no,
          parts = map parse_bait (select (TagClass (ustr ''div'') (ustr ''bait'')) lirik_div)\<rparr>)"

text \<open>
  \<^verbatim>\<open>
  def parse_alkitab_page(html: str) -> Optional[List[Dict[str, object]]]:
      soup = BeautifulSoup(html, "html.parser")
      lagu = soup.select_one("div.lagu")
      if not lagu:
          return None
      lirik_list = [parse_alkitab_lirik_blocks(l) for l in lagu.select("div.lirik")]
      return lirik_list
  \<close>
\<close>

definition parse_alkitab_page :: "(ustr \<Rightarrow> node) \<Rightarrow> ustr \<Rightarrow> block list option" where
  "parse_alkitab_page soup html =
     (case select_one (TagClass (ustr ''div'') (ustr ''lagu'')) (soup html) of
        None \<Rightarrow> None
      | Some lagu \<Rightarrow>
          Some (map parse_alkitab_lirik_blocks
                  (select (TagClass (ustr ''div'') (ustr ''lirik'')) lagu)))"

section \<open>Fetching pages\<close>

text \<open>
  \<^verbatim>\<open>
  def fetch_html(session: requests.Session, url: str, timeout: float = REQUEST_TIMEOUT) -> str:
      r = session.get(url, timeout=timeout)
      r.raise_for_status()
      r.encoding = r.encoding or "utf-8"
      return r.text
  \<close>
  The call returns the page text or raises. \<^verbatim>\<open>raise_for_status\<close> raises
  \<^verbatim>\<open>requests.HTTPError\<close>, which carries the response (or none); \<^verbatim>\<open>session.get\<close> raises the
  other transport errors of \<^verbatim>\<open>requests\<close> (connection errors, timeouts, ...), all of them
  subclasses of \<^verbatim>\<open>Exception\<close>. An exception outside \<^verbatim>\<open>Exception\<close>, such as
  \<^verbatim>\<open>KeyboardInterrupt\<close>, can arrive during any call. The string of an exception is
  \<^verbatim>\<open>str(e)\<close>.

  What the network answers is the \<open>responses\<close> of the session; \<open>requested\<close> records the
  addresses asked for, in order.
\<close>

datatype exn =
    HTTPError "int option" ustr
  | OtherException ustr
  | KeyboardInterrupt

record session =
  responses :: "ustr \<Rightarrow> exn + ustr"
  requested :: "ustr list"

definition fetch_html :: "session \<Rightarrow> ustr \<Rightarrow> (exn + ustr) \<times> session" where
  "fetch_html s url = (responses s url, s\<lparr>requested := requested s @ [url]\<rparr>)"

section \<open>Fallback resolver\<close>

text \<open>
  \<^verbatim>\<open>
  def build_alkitab_url(buku: str, no_lagu: int) -> str:
      return f"https://alkitab.app/{buku.upper()}/{int(no_lagu)}"

  def page_says_no_such_song(html: str) -> bool:
      return "no such song" in (html or "").lower()
  \<close>
\<close>

definition build_alkitab_url :: "ustr \<Rightarrow> int \<Rightarrow> ustr" where
  "build_alkitab_url bk no =
     ustr ''https://alkitab.app/'' @ str_upper bk @ ustr ''/'' @ str_of_int no"

definition page_says_no_such_song :: "ustr \<Rightarrow> bool" where
  "page_says_no_such_song html = contains (ustr ''no such song'') (str_lower html)"

text \<open>
  \<^verbatim>\<open>not lirik_list\<close> holds for \<^verbatim>\<open>None\<close> and for the empty list;
  \<^verbatim>\<open>all((not blk.get("parts") for blk in lirik_list))\<close> holds when every block has no part.
\<close>

definition no_blocks :: "block list option \<Rightarrow> bool" where
  "no_blocks lirik_list = (case lirik_list of None \<Rightarrow> True | Some bl \<Rightarrow> bl = [])"

definition all_parts_empty :: "block list option \<Rightarrow> bool" where
  "all_parts_empty lirik_list =
     (case lirik_list of None \<Rightarrow> True | Some bl \<Rightarrow> list_all (\<lambda>blk. parts blk = []) bl)"

type_synonym lyrics_result = "block list option \<times> ustr \<times> ustr list"

text \<open>
  \<^verbatim>\<open>kjpkjnkb.fetch_lyrics_from_alkitab\<close>, first \<^verbatim>\<open>try\<close> body. The list \<open>warns\<close> is
  changed before the \<^verbatim>\<open>raise\<close>, so the body gives its outcome (a returned tuple or a
  raised exception) together with the list and the session as they are when it ends.
  \<^verbatim>\<open>
      warns: List[str] = []
      url_base = build_alkitab_url(buku, no_lagu)
      try:
          html = fetch_html(session, url_base)
          if page_says_no_such_song(html):
              warns.append("alkitab.app responded 'no such song' (base); retry with 'A' suffix.")
              raise ValueError("no such song (base)")
          lirik_list = parse_alkitab_page(html)
          if not lirik_list:
              warns.append("no .lagu/.lirik found at alkitab.app (base)")
          else:
              if all((not blk.get("parts") for blk in lirik_list)):
                  warns.append("no parts (bait/reff) found at alkitab.app (base)")
          return lirik_list, url_base, warns
  \<close>
\<close>

definition base_attempt ::
  "(ustr \<Rightarrow> node) \<Rightarrow> session \<Rightarrow> ustr \<Rightarrow> ustr list \<Rightarrow> (exn + lyrics_result) \<times> ustr list \<times> session" where
  "base_attempt soup s url_base warns =
     (case fetch_html s url_base of
        (Inl e, s1) \<Rightarrow> (Inl e, warns, s1)
      | (Inr html, s1) \<Rightarrow>
          if page_says_no_such_song html
          then (Inl (OtherException (ustr ''no such song (base)'')),
                warns @ [ustr ''alkitab.app responded 'no such song' (base); retry with 'A' suffix.''],
                s1)
          else (let lirik_list = parse_alkitab_page soup html;
                    warns1 =
                      (if no_blocks lirik_list
                       then warns @ [ustr ''no .lagu/.lirik found at alkitab.app (base)'']
                       else if all_parts_empty lirik_list
                       then warns @ [ustr ''no parts (bait/reff) found at alkitab.app (base)'']
                       else warns)
                in (Inr (lirik_list, url_base, warns1), warns1, s1)))"

text \<open>
  The handlers of the first \<^verbatim>\<open>try\<close>. A handler gives the new list of warnings, or
  the exception itself when no \<^verbatim>\<open>except\<close> clause takes it.
  \<^verbatim>\<open>
      except requests.HTTPError as e:
          code = e.response.status_code if e.response is not None else "?"
          if str(code) == "404":
              warns.append("HTTP 404 at alkitab.app (base); retry with 'A' suffix.")
          else:
              warns.append(f"alkitab.app fetch failed (base): HTTP {code}")
      except Exception as e:
          msg = str(e).lower()
          if "no such song" in msg:
              pass
          else:
              warns.append(f"alkitab.app parse error (base): {e}")
  \<close>
\<close>

definition status_text :: "int option \<Rightarrow> ustr" where
  "status_text response = (case response of None \<Rightarrow> ustr ''?'' | Some code \<Rightarrow> str_of_int code)"

definition base_handler :: "exn \<Rightarrow> ustr list \<Rightarrow> exn + ustr list" where
  "base_handler e warns =
     (case e of
        HTTPError response msg \<Rightarrow>
          if status_text response = ustr ''404''
          then Inr (warns @ [ustr ''HTTP 404 at alkitab.app (base); retry with 'A' suffix.''])
          else Inr (warns @ [ustr ''alkitab.app fetch failed (base): HTTP '' @ status_text response])
      | OtherException msg \<Rightarrow>
          if contains (ustr ''no such song'') (str_lower msg)
          then Inr warns
          else Inr (warns @ [ustr ''alkitab.app parse error (base): '' @ msg])
      | KeyboardInterrupt \<Rightarrow> Inl KeyboardInterrupt)"

text \<open>
  The second \<^verbatim>\<open>try\<close> and its handlers.
  \<^verbatim>\<open>
      url_a = f"{url_base}A"
      try:
          html_a = fetch_html(session, url_a)
          if page_says_no_such_song(html_a):
              warns.append("alkitab.app responded 'no such song' (A variant).")
              return None, url_a, warns
          lirik_list_a = parse_alkitab_page(html_a)
          if not lirik_list_a:
              warns.append("no .lagu/.lirik found at alkitab.app (A variant).")
          else:
              if all((not blk.get("parts") for blk in lirik_list_a)):
                  warns.append("no parts (bait/reff) found at alkitab.app (A variant).")
          warns.append("used 'A' suffix fallback.")
          return lirik_list_a, url_a, warns
      except requests.HTTPError as e:
          code = e.response.status_code if e.response is not None else "?"
          warns.append(f"alkitab.app fetch failed (A variant): HTTP {code}")
      except Exception as e:
          warns.append(f"alkitab.app parse error (A variant): {e}")

      return None, url_a, warns
  \<close>
\<close>

definition alt_attempt ::
  "(ustr \<Rightarrow> node) \<Rightarrow> session \<Rightarrow> ustr \<Rightarrow> ustr list \<Rightarrow> (exn + lyrics_result) \<times> ustr list \<times> session" where
  "alt_attempt soup s url_a warns =
     (case fetch_html s url_a of
        (Inl e, s1) \<Rightarrow> (Inl e, warns, s1)
      | (Inr html_a, s1) \<Rightarrow>
          if page_says_no_such_song html_a
          then (let warns1 = warns @ [ustr ''alkitab.app responded 'no such song' (A variant).'']
                in (Inr (None, url_a, warns1), warns1, s1))
          else (let lirik_list_a = parse_alkitab_page soup html_a;
                    warns1 =
                      (if no_blocks lirik_list_a
                       then warns @ [ustr ''no .lagu/.lirik found at alkitab.app (A variant).'']
                       else if all_parts_empty lirik_list_a
                       then warns @ [ustr ''no parts (bait/reff) found at alkitab.app (A variant).'']
                       else warns);
                    warns2 = warns1 @ [ustr ''used 'A' suffix fallback.'']
                in (Inr (lirik_list_a, url_a, warns2), warns2, s1)))"

definition alt_handler :: "exn \<Rightarrow> ustr list \<Rightarrow> exn + ustr list" where
  "alt_handler e warns =
     (case e of
        HTTPError response msg \<Rightarrow>
          Inr (warns @ [ustr ''alkitab.app fetch failed (A variant): HTTP '' @ status_text response])
      | OtherException msg \<Rightarrow>
          Inr (warns @ [ustr ''alkitab.app parse error (A variant): '' @ msg])
      | KeyboardInterrupt \<Rightarrow> Inl KeyboardInterrupt)"

text \<open>
  \<^verbatim>\<open>
  def fetch_lyrics_from_alkitab(session, buku, no_lagu):
      """
      Try /{no_lagu}, and if the page says 'no such song' (or 404), retry /{no_lagu}A.
      Returns (lirik_list or None, lyrics_url_used, warnings)
      """
  \<close>
  The result is the returned tuple, or the exception that leaves the function.
\<close>

definition fetch_lyrics_from_alkitab ::
  "(ustr \<Rightarrow> node) \<Rightarrow> session \<Rightarrow> ustr \<Rightarrow> int \<Rightarrow> (exn + lyrics_result) \<times> session" where
  "fetch_lyrics_from_alkitab soup s bk no =
     (let url_base = build_alkitab_url bk no
      in case base_attempt soup s url_base [] of
           (Inr result, warns1, s1) \<Rightarrow> (Inr result, s1)
         | (Inl e, warns1, s1) \<Rightarrow>
             (case base_handler e warns1 of
                Inl e' \<Rightarrow> (Inl e', s1)
              | Inr warns2 \<Rightarrow>
                  (let url_a = url_base @ ustr ''A''
                   in case alt_attempt soup s1 url_a warns2 of
                        (Inr result, warns3, s2) \<Rightarrow> (Inr result, s2)
                      | (Inl e2, warns3, s2) \<Rightarrow>
                          (case alt_handler e2 warns3 of
                             Inl e' \<Rightarrow> (Inl e', s2)
                           | Inr warns4 \<Rightarrow> (Inr (None, url_a, warns4), s2)))))"

text \<open>
  \<^verbatim>\<open>get_nkb_24.fetch_lyrics_from_alkitab\<close> has the same two stages with other texts.
  Its first handler reads the status with \<^verbatim>\<open>if e.response\<close>: a \<^verbatim>\<open>requests\<close> response is
  true when its status is no error status (not in 400..599). Its second stage has a single
  \<^verbatim>\<open>except Exception\<close> clause.
  \<^verbatim>\<open>
      warns: List[str] = []
      base = build_alkitab_url(buku, no_lagu)
      try:
          h = fetch_html(session, base)
          if page_says_no_such_song(h):
              warns.append("alkitab.app says 'no such song' (base); will try 'A'.")
              raise ValueError("no such song")
          lst = parse_alkitab_page(h)
          if not lst:
              warns.append("no .lagu/.lirik found (base)")
          elif all((not blk.get("parts") for blk in lst)):
              warns.append("no parts found (base)")
          return lst, base, warns
      except requests.HTTPError as e:
          code = e.response.status_code if e.response else "?"
          if str(code) == "404":
              warns.append("HTTP 404 (base); will try 'A'.")
          else:
              warns.append(f"HTTP {code} (base)")
      except Exception as e:
          if "no such song" not in str(e).lower():
              warns.append(f"parse error (base): {e}")
      aurl = f"{base}A"
      try:
          h2 = fetch_html(session, aurl)
          if page_says_no_such_song(h2):
              warns.append("alkitab.app says 'no such song' (A).")
              return None, aurl, warns
          lst2 = parse_alkitab_page(h2)
          if not lst2:
              warns.append("no .lagu/.lirik found (A)")
          elif all((not blk.get("parts") for blk in lst2)):
              warns.append("no parts found (A)")
          warns.append("used 'A' suffix fallback.")
          return lst2, aurl, warns
      except Exception as e:
          warns.append(f"A-suffix fetch/parse error: {e}")
      return None, aurl, warns
  \<close>
\<close>

definition base_attempt_nkb24 ::
  "(ustr \<Rightarrow> node) \<Rightarrow> session \<Rightarrow> ustr \<Rightarrow> ustr list \<Rightarrow> (exn + lyrics_result) \<times> ustr list \<times> session" where
  "base_attempt_nkb24 soup s base warns =
     (case fetch_html s base of
        (Inl e, s1) \<Rightarrow> (Inl e, warns, s1)
      | (Inr h, s1) \<Rightarrow>
          if page_says_no_such_song h
          then (Inl (OtherException (ustr ''no such song'')),
                warns @ [ustr ''alkitab.app says 'no such song' (base); will try 'A'.''],
                s1)
          else (let lst = parse_alkitab_page soup h;
                    warns1 =
                      (if no_blocks lst then warns @ [ustr ''no .lagu/.lirik found (base)'']
                       else if all_parts_empty lst then warns @ [ustr ''no parts found (base)'']
                       else warns)
                in (Inr (lst, base, warns1), warns1, s1)))"

definition response_ok :: "int \<Rightarrow> bool" where
  "response_ok code = (\<not> (400 \<le> code \<and> code < 600))"

definition status_text_nkb24 :: "int option \<Rightarrow> ustr" where
  "status_text_nkb24 response =
     (case response of
        None \<Rightarrow> ustr ''?''
      | Some code \<Rightarrow> if response_ok code then str_of_int code else ustr ''?'')"

definition exn_text :: "exn \<Rightarrow> ustr" where
  "exn_text e =
     (case e of
        HTTPError response msg \<Rightarrow> msg
      | OtherException msg \<Rightarrow> msg
      | KeyboardInterrupt \<Rightarrow> [])"

definition base_handler_nkb24 :: "exn \<Rightarrow> ustr list \<Rightarrow> exn + ustr list" where
  "base_handler_nkb24 e warns =
     (case e of
        HTTPError response msg \<Rightarrow>
          if status_text_nkb24 response = ustr ''404''
          then Inr (warns @ [ustr ''HTTP 404 (base); will try 'A'.''])
          else Inr (warns @ [ustr ''HTTP '' @ status_text_nkb24 response @ ustr '' (base)''])
      | OtherException msg \<Rightarrow>
          if \<not> contains (ustr ''no such song'') (str_lower msg)
          then Inr (warns @ [ustr ''parse error (base): '' @ msg])
          else Inr warns
      | KeyboardInterrupt \<Rightarrow> Inl KeyboardInterrupt)"

definition alt_attempt_nkb24 ::
  "(ustr \<Rightarrow> node) \<Rightarrow> session \<Rightarrow> ustr \<Rightarrow> ustr list \<Rightarrow> (exn + lyrics_result) \<times> ustr list \<times> session" where
  "alt_attempt_nkb24 soup s aurl warns =
     (case fetch_html s aurl of
        (Inl e, s1) \<Rightarrow> (Inl e, warns, s1)
      | (Inr h2, s1) \<Rightarrow>
          if page_says_no_such_song h2
          then (let warns1 = warns @ [ustr ''alkitab.app says 'no such song' (A).'']
                in (Inr (None, aurl, warns1), warns1, s1))
          else (let lst2 = parse_alkitab_page soup h2;
                    warns1 =
                      (if no_blocks lst2 then warns @ [ustr ''no .lagu/.lirik found (A)'']
                       else if all_parts_empty lst2 then warns @ [ustr ''no parts found (A)'']
                       else warns);
                    warns2 = warns1 @ [ustr ''used 'A' suffix fallback.'']
                in (Inr (lst2, aurl, warns2), warns2, s1)))"

definition alt_handler_nkb24 :: "exn \<Rightarrow> ustr list \<Rightarrow> exn + ustr list" where
  "alt_handler_nkb24 e warns =
     (case e of
        KeyboardInterrupt \<Rightarrow> Inl KeyboardInterrupt
      | _ \<Rightarrow> Inr (warns @ [ustr ''A-suffix fetch/parse error: '' @ exn_text e]))"

definition fetch_lyrics_from_alkitab_nkb24 ::
  "(ustr \<Rightarrow> node) \<Rightarrow> session \<Rightarrow> ustr \<Rightarrow> int \<Rightarrow> (exn + lyrics_result) \<times> session" where
  "fetch_lyrics_from_alkitab_nkb24 soup s bk no =
     (let base = build_alkitab_url bk no
      in case base_attempt_nkb24 soup s base [] of
           (Inr result, warns1, s1) \<Rightarrow> (Inr result, s1)
         | (Inl e, warns1, s1) \<Rightarrow>
             (case base_handler_nkb24 e warns1 of
                Inl e' \<Rightarrow> (Inl e', s1)
              | Inr warns2 \<Rightarrow>
                  (let aurl = base @ ustr ''A''
                   in case alt_attempt_nkb24 soup s1 aurl warns2 of
                        (Inr result, warns3, s2) \<Rightarrow> (Inr result, s2)
                      | (Inl e2, warns3, s2) \<Rightarrow>
                          (case alt_handler_nkb24 e2 warns3 of
                             Inl e' \<Rightarrow> (Inl e', s2)
                           | Inr warns4 \<Rightarrow> (Inr (None, aurl, warns4), s2)))))"

section \<open>Rows and their serialization\<close>

text \<open>
  The metadata dictionary of a source page and the row dictionary written to the database
  share their first six keys. A value that may be \<^verbatim>\<open>None\<close> is an option.
\<close>

record hymn_fields =
  buku :: "ustr option"
  no_lagu :: "int option"
  judul_text :: "ustr option"
  info :: "ustr option"
  tune :: "ustr option"
  beat :: "ustr option"

record meta = hymn_fields +
  raw_title :: ustr

record db_row = hymn_fields +
  lirik_json :: "ustr option"
  source_url :: "ustr option"
  lyrics_source_url :: "ustr option"
  fetched_at :: "ustr option"
  warnings :: "ustr option"

text \<open>
  \<^verbatim>\<open>json.dumps(value, ensure_ascii=False)\<close> with the default separators \<^verbatim>\<open>", "\<close> and
  \<^verbatim>\<open>": "\<close>. In a string the quote, the backslash and the control characters below U+0020
  are escaped; every other character is written as it is.
\<close>

datatype json = JNull | JString ustr | JArray "json list" | JObject "(ustr \<times> json) list"

definition hex_digit :: "nat \<Rightarrow> nat" where
  "hex_digit d = (if d < 10 then 48 + d else 87 + d)"

definition json_escape :: "nat \<Rightarrow> ustr" where
  "json_escape c =
     (if c = 34 then [92, 34]
      else if c = 92 then [92, 92]
      else if c = 8 then [92, 98]
      else if c = 12 then [92, 102]
      else if c = 10 then [92, 110]
      else if c = 13 then [92, 114]
      else if c = 9 then [92, 116]
      else if c < 32 then [92, 117, 48, 48, hex_digit (c div 16), hex_digit (c mod 16)]
      else [c])"

definition encode_basestring :: "ustr \<Rightarrow> ustr" where
  "encode_basestring s = [34] @ concat (map json_escape s) @ [34]"

fun dumps :: "json \<Rightarrow> ustr" where
  "dumps JNull = ustr ''null''"
| "dumps (JString s) = encode_basestring s"
| "dumps (JArray xs) = ustr ''['' @ str_join (ustr '', '') (map dumps xs) @ ustr '']''"
| "dumps (JObject kvs) =
     ustr ''{'' @ str_join (ustr '', '')
        (map (\<lambda>kv. encode_basestring (fst kv) @ ustr '': '' @ dumps (snd kv)) kvs) @ ustr ''}''"

text \<open>The parser's dictionaries as JSON values, keys in insertion order.\<close>

definition json_of_opt :: "ustr option \<Rightarrow> json" where
  "json_of_opt v = (case v of None \<Rightarrow> JNull | Some s \<Rightarrow> JString s)"

definition json_of_part :: "part \<Rightarrow> json" where
  "json_of_part p =
     JObject [(ustr ''type'', JString (part_type p)),
              (ustr ''no'', json_of_opt (part_no p)),
              (ustr ''text'', json_of_opt (part_text p))]"

definition json_of_block :: "block \<Rightarrow> json" where
  "json_of_block b =
     JObject [(ustr ''lirik_no'', json_of_opt (lirik_no b)),
              (ustr ''parts'', JArray (map json_of_part (parts b)))]"

text \<open>\<^verbatim>\<open>lirik_list or []\<close>: \<^verbatim>\<open>None\<close> and the empty list give the empty list.\<close>

definition or_empty :: "block list option \<Rightarrow> block list" where
  "or_empty lirik_list = (case lirik_list of None \<Rightarrow> [] | Some bl \<Rightarrow> bl)"

text \<open>
  \<^verbatim>\<open>
  def to_db_row(meta, source_url, lirik_list, lyrics_source_url, extra_warnings) -> Dict:
      lirik_json = json.dumps(lirik_list or [], ensure_ascii=False)
      return {
          "buku": meta.get("buku"),
          "no_lagu": meta.get("no_lagu"),
          "judul_text": meta.get("judul_text"),
          "info": meta.get("info"),
          "tune": meta.get("tune"),
          "beat": meta.get("beat"),
          "lirik_json": lirik_json,
          "source_url": source_url,
          "lyrics_source_url": lyrics_source_url,
          "fetched_at": datetime.utcnow().isoformat(timespec="seconds") + "Z",
          "warnings": "; ".join(extra_warnings) if extra_warnings else None,
      }
  \<close>
  The clock reading \<^verbatim>\<open>datetime.utcnow().isoformat(timespec="seconds")\<close> is the parameter
  \<open>utcnow\<close>.
\<close>

definition to_db_row ::
  "meta \<Rightarrow> ustr \<Rightarrow> block list option \<Rightarrow> ustr option \<Rightarrow> ustr list \<Rightarrow> ustr \<Rightarrow> db_row" where
  "to_db_row m src lirik_list lyrics_src extra_warnings utcnow =
     (let lirik_json = dumps (JArray (map json_of_block (or_empty lirik_list)))
      in \<lparr>buku = buku m,
          no_lagu = no_lagu m,
          judul_text = judul_text m,
          info = info m,
          tune = tune m,
          beat = beat m,
          lirik_json = Some lirik_json,
          source_url = Some src,
          lyrics_source_url = lyrics_src,
          fetched_at = Some (utcnow @ ustr ''Z''),
          warnings = (if extra_warnings \<noteq> [] then Some (str_join (ustr ''; '') extra_warnings)
                      else None)\<rparr>)"

text \<open>
  \<^verbatim>\<open>get_nkb_24.main\<close> builds its row in place, from the fixed \<^verbatim>\<open>SOURCE_URL\<close>:
  \<^verbatim>\<open>
      row = {
          "buku": meta.get("buku"),
          "no_lagu": meta.get("no_lagu"),
          "judul_text": meta.get("judul_text"),
          "info": meta.get("info"),
          "tune": meta.get("tune"),
          "beat": meta.get("beat"),
          "lirik_json": json.dumps(lirik_list or [], ensure_ascii=False),
          "source_url": SOURCE_URL,
          "lyrics_source_url": lyrics_url,
          "fetched_at": datetime.utcnow().isoformat(timespec="seconds") + "Z",
          "warnings": "; ".join(warns) if warns else None,
      }
  \<close>
\<close>

definition SOURCE_URL :: ustr where
  "SOURCE_URL = ustr ''https://www.gkiharapanindah.org/nyanyian-jemaat/nyanyikanlah-kidung-baru/nkb-024-tuhan-kasihanilah-kami/''"

definition main_row ::
  "meta \<Rightarrow> block list option \<Rightarrow> ustr option \<Rightarrow> ustr list \<Rightarrow> ustr \<Rightarrow> db_row" where
  "main_row m lirik_list lyrics_url warns utcnow =
     \<lparr>buku = buku m,
      no_lagu = no_lagu m,
      judul_text = judul_text m,
      info = info m,
      tune = tune m,
      beat = beat m,
      lirik_json = Some (dumps (JArray (map json_of_block (or_empty lirik_list)))),
      source_url = Some SOURCE_URL,
      lyrics_source_url = lyrics_url,
      fetched_at = Some (utcnow @ ustr ''Z''),
      warnings = (if warns \<noteq> [] then Some (str_join (ustr ''; '') warns) else None)\<rparr>"

section \<open>Validation\<close>

text \<open>
  \<^verbatim>\<open>kjpkjnkb.py\<close>:
  \<^verbatim>\<open>
  def enforce_required_fields(meta, lirik_list, url) -> List[str]:
      msgs: List[str] = []
      if not meta.get("buku"):
          msgs.append("Missing buku")
      if meta.get("no_lagu") is None:
          msgs.append("Missing no_lagu")
      if not meta.get("judul_text"):
          msgs.append("Missing judul_text")
      if not meta.get("info"):
          msgs.append("Missing info")
      if not lirik_list:
          msgs.append("No lirik found")
      elif all((not blk.get("parts") for blk in lirik_list)):
          msgs.append("No lirik parts found")
      if msgs:
          logging.warning("Key fields issue for %s: %s", url, "; ".join(msgs))
      return msgs
  \<close>
  \<^verbatim>\<open>get_nkb_24.validate\<close> differs in the last test only:
  \<^verbatim>\<open>
      if not lirik or all((not blk.get("parts") for blk in lirik)):
          msgs.append("No lirik found")
  \<close>
  The address is used for the log line only. An optional string is true when it is
  present and not empty.
\<close>

definition truthy :: "ustr option \<Rightarrow> bool" where
  "truthy v = (case v of None \<Rightarrow> False | Some x \<Rightarrow> x \<noteq> [])"

definition enforce_required_fields :: "meta \<Rightarrow> block list option \<Rightarrow> ustr list" where
  "enforce_required_fields m lirik_list =
     (if \<not> truthy (buku m) then [ustr ''Missing buku''] else [])
     @ (if no_lagu m = None then [ustr ''Missing no_lagu''] else [])
     @ (if \<not> truthy (judul_text m) then [ustr ''Missing judul_text''] else [])
     @ (if \<not> truthy (info m) then [ustr ''Missing info''] else [])
     @ (if no_blocks lirik_list then [ustr ''No lirik found'']
        else if all_parts_empty lirik_list then [ustr ''No lirik parts found'']
        else [])"

definition validate :: "meta \<Rightarrow> block list option \<Rightarrow> ustr list" where
  "validate m lirik =
     (if \<not> truthy (buku m) then [ustr ''Missing buku''] else [])
     @ (if no_lagu m = None then [ustr ''Missing no_lagu''] else [])
     @ (if \<not> truthy (judul_text m) then [ustr ''Missing judul_text''] else [])
     @ (if \<not> truthy (info m) then [ustr ''Missing info''] else [])
     @ (if no_blocks lirik \<or> all_parts_empty lirik then [ustr ''No lirik found''] else [])"

text \<open>
  The end of \<^verbatim>\<open>kjpkjnkb.scrape_one\<close> puts the messages of the validation before the
  warnings of the resolver and builds the row:
  \<^verbatim>\<open>
      key_warns = enforce_required_fields(meta, lirik_list, url)
      all_warns = key_warns + lyric_warns
      return to_db_row(meta, url, lirik_list, lyrics_source_url, all_warns)
  \<close>
\<close>

definition scrape_one_row ::
  "meta \<Rightarrow> ustr \<Rightarrow> block list option \<Rightarrow> ustr option \<Rightarrow> ustr list \<Rightarrow> ustr \<Rightarrow> db_row" where
  "scrape_one_row m url lirik_list lyrics_src lyric_warns utcnow =
     (let key_warns = enforce_required_fields m lirik_list;
          all_warns = key_warns @ lyric_warns
      in to_db_row m url lirik_list lyrics_src all_warns utcnow)"

section \<open>Persistence\<close>

text \<open>
  \<^verbatim>\<open>
  CREATE TABLE IF NOT EXISTS hymns (
      id INTEGER PRIMARY KEY AUTOINCREMENT,
      buku TEXT NOT NULL,
      no_lagu INTEGER NOT NULL,
      judul_text TEXT NOT NULL,
      info TEXT,
      tune TEXT,
      beat TEXT,
      lirik_json TEXT NOT NULL,   -- list of lirik blocks (below)
      source_url TEXT NOT NULL,
      lyrics_source_url TEXT,
      fetched_at TEXT NOT NULL,
      warnings TEXT,
      UNIQUE (buku, no_lagu) ON CONFLICT REPLACE
  );
  \<close>
  The table is the list of its rows. The column \<^verbatim>\<open>id\<close> is given by the database and
  never read or written by the scrapers; it is not part of a row here.

  \<^verbatim>\<open>conn.execute(sql, row)\<close> first binds the eleven named parameters, in the order in which
  the statement names them. A \<^verbatim>\<open>None\<close> is bound as SQL NULL. A string is bound as UTF-8:
  one that holds a surrogate code point (U+D800 to U+DFFF) cannot be encoded and raises
  \<^verbatim>\<open>UnicodeEncodeError\<close>. An integer is bound as a signed 64-bit value: one outside
  \<^verbatim>\<open>-2**63 .. 2**63 - 1\<close> raises \<^verbatim>\<open>OverflowError\<close>. The first parameter that cannot be
  bound decides the exception. Then the statement runs: a NULL for a \<^verbatim>\<open>NOT NULL\<close> column
  makes it fail with \<^verbatim>\<open>sqlite3.IntegrityError\<close>, before any row is touched; the upsert
  clause answers uniqueness conflicts only. (The length limit of the database engine,
  a billion bytes for one value unless configured otherwise, is not part of the model.)
\<close>

datatype db_error = IntegrityError ustr | OverflowError ustr | UnicodeEncodeError

definition text_ok :: "ustr option \<Rightarrow> bool" where
  "text_ok v = (case v of None \<Rightarrow> True | Some t \<Rightarrow> list_all (\<lambda>c. \<not> (55296 \<le> c \<and> c \<le> 57343)) t)"

definition int_ok :: "int option \<Rightarrow> bool" where
  "int_ok v = (case v of None \<Rightarrow> True | Some n \<Rightarrow> - (2 ^ 63) \<le> n \<and> n \<le> 2 ^ 63 - 1)"

definition bind_error :: "db_row \<Rightarrow> db_error option" where
  "bind_error row =
     (if \<not> text_ok (buku row) then Some UnicodeEncodeError
      else if \<not> int_ok (no_lagu row)
      then Some (OverflowError (ustr ''Python int too large to convert to SQLite INTEGER''))
      else if \<not> (text_ok (judul_text row) \<and> text_ok (info row) \<and> text_ok (tune row)
                 \<and> text_ok (beat row) \<and> text_ok (lirik_json row) \<and> text_ok (source_url row)
                 \<and> text_ok (lyrics_source_url row) \<and> text_ok (fetched_at row)
                 \<and> text_ok (warnings row))
      then Some UnicodeEncodeError
      else None)"

type_synonym hymns = "db_row list"

definition first_null_column :: "db_row \<Rightarrow> ustr option" where
  "first_null_column row =
     (if buku row = None then Some (ustr ''buku'')
      else if no_lagu row = None then Some (ustr ''no_lagu'')
      else if judul_text row = None then Some (ustr ''judul_text'')
      else if lirik_json row = None then Some (ustr ''lirik_json'')
      else if source_url row = None then Some (ustr ''source_url'')
      else if fetched_at row = None then Some (ustr ''fetched_at'')
      else None)"

text \<open>
  \<^verbatim>\<open>
  def upsert_hymn(conn: sqlite3.Connection, row: Dict) -> None:
      sql = """
      INSERT INTO hymns (buku, no_lagu, judul_text, info, tune, beat, lirik_json,
                         source_url, lyrics_source_url, fetched_at, warnings)
      VALUES (:buku, :no_lagu, :judul_text, :info, :tune, :beat, :lirik_json,
              :source_url, :lyrics_source_url, :fetched_at, :warnings)
      ON CONFLICT(buku, no_lagu) DO UPDATE SET
          judul_text=excluded.judul_text,
          info=excluded.info,
          tune=excluded.tune,
          beat=excluded.beat,
          lirik_json=excluded.lirik_json,
          source_url=excluded.source_url,
          lyrics_source_url=excluded.lyrics_source_url,
          fetched_at=excluded.fetched_at,
          warnings=excluded.warnings;
      """
      conn.execute(sql, row)
      conn.commit()
  \<close>
  The same function stands in both scrapers.
\<close>

definition same_key :: "db_row \<Rightarrow> db_row \<Rightarrow> bool" where
  "same_key r row = (buku r = buku row \<and> no_lagu r = no_lagu row)"

definition do_update :: "db_row \<Rightarrow> db_row \<Rightarrow> db_row" where
  "do_update r excluded =
     r\<lparr>judul_text := judul_text excluded,
       info := info excluded,
       tune := tune excluded,
       beat := beat excluded,
       lirik_json := lirik_json excluded,
       source_url := source_url excluded,
       lyrics_source_url := lyrics_source_url excluded,
       fetched_at := fetched_at excluded,
       warnings := warnings excluded\<rparr>"

definition upsert_hymn :: "hymns \<Rightarrow> db_row \<Rightarrow> db_error + hymns" where
  "upsert_hymn table row =
     (case bind_error row of
        Some e \<Rightarrow> Inl e
      | None \<Rightarrow>
          (case first_null_column row of
             Some col \<Rightarrow> Inl (IntegrityError (ustr ''NOT NULL constraint failed: hymns.'' @ col))
           | None \<Rightarrow>
               if list_ex (\<lambda>r. same_key r row) table
               then Inr (map (\<lambda>r. if same_key r row then do_update r row else r) table)
               else Inr (table @ [row])))"

text \<open>
  The table after a call: a call that raised has changed nothing (the caller
  \<^verbatim>\<open>process_file\<close> logs the exception and goes on with the next link).
\<close>

definition table_after :: "hymns \<Rightarrow> db_error + hymns \<Rightarrow> hymns" where
  "table_after table outcome = (case outcome of Inl e \<Rightarrow> table | Inr table' \<Rightarrow> table')"

text \<open>
  The third step of \<^verbatim>\<open>get_nkb_24.main\<close> validates, builds the row and saves it:
  \<^verbatim>\<open>
      warns = validate(meta, lirik_list, SOURCE_URL) + lyric_warns
      row = { ... "warnings": "; ".join(warns) if warns else None }
      conn = init_db()
      upsert_hymn(conn, row)
  \<close>
  \<^verbatim>\<open>kjpkjnkb.process_file\<close> saves the row of \<^verbatim>\<open>scrape_one\<close> in the same way:
  \<^verbatim>\<open>
      row = scrape_one(session, url, expected_buku=hymnal)
      upsert_hymn(conn, row)
  \<close>
\<close>

definition main_save ::
  "hymns \<Rightarrow> meta \<Rightarrow> block list option \<Rightarrow> ustr option \<Rightarrow> ustr list \<Rightarrow> ustr \<Rightarrow> db_error + hymns" where
  "main_save table m lirik_list lyrics_url lyric_warns utcnow =
     (let warns = validate m lirik_list @ lyric_warns;
          row = main_row m lirik_list lyrics_url warns utcnow
      in upsert_hymn table row)"

definition process_save ::
  "hymns \<Rightarrow> meta \<Rightarrow> ustr \<Rightarrow> block list option \<Rightarrow> ustr option \<Rightarrow> ustr list \<Rightarrow> ustr
   \<Rightarrow> db_error + hymns" where
  "process_save table m url lirik_list lyrics_src lyric_warns utcnow =
     upsert_hymn table (scrape_one_row m url lirik_list lyrics_src lyric_warns utcnow)"

section \<open>Example inputs\<close>

text \<open>
  Small concrete inputs on which the theorems below are tried: five page texts with the
  trees that \<^verbatim>\<open>html.parser\<close> builds for them, a network that answers at the two addresses
  of song NKB 24, and the metadata and the row of a source page with a given heading.
\<close>

definition page_lyrics :: ustr where
  "page_lyrics = ustr ''<div class=lagu><div class=lirik><div class=bait><p class=baris>Amin</p></div></div></div>''"

definition page_lyrics_marked :: ustr where
  "page_lyrics_marked = ustr ''<div class=lagu><div class=lirik><div class=bait><p class=baris>No such song</p></div></div></div>''"

definition page_marker :: ustr where
  "page_marker = ustr ''No such song''"

definition page_empty_lagu :: ustr where
  "page_empty_lagu = ustr ''<div class=lagu></div>''"

definition page_plain :: ustr where
  "page_plain = ustr ''<p>Halo</p>''"

definition lyrics_tree :: "ustr \<Rightarrow> node" where
  "lyrics_tree line =
     Element (ustr ''[document]'') []
       [Element (ustr ''div'') [ustr ''lagu'']
          [Element (ustr ''div'') [ustr ''lirik'']
             [Element (ustr ''div'') [ustr ''bait'']
                [Element (ustr ''p'') [ustr ''baris''] [TextNode line]]]]]"

definition example_soup :: "ustr \<Rightarrow> node" where
  "example_soup html =
     (if html = page_lyrics then lyrics_tree (ustr ''Amin'')
      else if html = page_lyrics_marked then lyrics_tree (ustr ''No such song'')
      else if html = page_empty_lagu
      then Element (ustr ''[document]'') [] [Element (ustr ''div'') [ustr ''lagu''] []]
      else if html = page_plain
      then Element (ustr ''[document]'') [] [Element (ustr ''p'') [] [TextNode (ustr ''Halo'')]]
      else Element (ustr ''[document]'') [] [TextNode html])"

definition example_session :: "(exn + ustr) \<Rightarrow> (exn + ustr) \<Rightarrow> session" where
  "example_session base_answer alt_answer =
     \<lparr>responses = (\<lambda>url. if url = ustr ''https://alkitab.app/NKB/24'' then base_answer
                          else if url = ustr ''https://alkitab.app/NKB/24A'' then alt_answer
                          else Inl (HTTPError (Some 404) (ustr ''404 Client Error''))),
      requested = []\<rparr>"

definition one_verse :: "ustr \<Rightarrow> block list" where
  "one_verse line =
     [\<lparr>lirik_no = None,
       parts = [\<lparr>part_type = ustr ''bait'', part_no = None, part_text = Some line\<rparr>]\<rparr>]"

definition heading_meta :: "ustr \<Rightarrow> meta" where
  "heading_meta raw =
     (case split_title_nkb24 raw of
        (bk, no, title) \<Rightarrow>
          \<lparr>buku = bk, no_lagu = no, judul_text = title, info = Some (ustr ''do = d''),
           tune = Some (ustr ''do = d''), beat = None, raw_title = raw\<rparr>)"

definition saved_row :: "ustr \<Rightarrow> ustr \<Rightarrow> db_row" where
  "saved_row raw utcnow =
     main_row (heading_meta raw) (Some (one_verse (ustr ''Amin'')))
       (Some (ustr ''https://alkitab.app/NKB/24''))
       (validate (heading_meta raw) (Some (one_verse (ustr ''Amin'')))) utcnow"

section \<open>Notions used in the proofs\<close>

text \<open>
  The normalizer in five steps, and the properties of a text that each step establishes:
  \<open>lead\<close> counts the newlines a text starts with, \<open>run3free\<close> says that no three newlines
  stand in a row, \<open>lines_ok\<close> that every line is stripped, \<open>clean\<close> that no character is
  one that the first two steps replace.
\<close>

definition lead :: "ustr \<Rightarrow> nat" where
  "lead s = length (takeWhile (\<lambda>x. x = NL) s)"

fun run3free :: "ustr \<Rightarrow> bool" where
  "run3free (a # b # c # r) = (\<not> (a = NL \<and> b = NL \<and> c = NL) \<and> run3free (b # c # r))"
| "run3free _ = True"

definition lines_ok :: "ustr \<Rightarrow> bool" where
  "lines_ok s = list_all (\<lambda>l. strip l = l) (split_on NL s)"

definition strip_lines :: "ustr \<Rightarrow> ustr" where
  "strip_lines s = str_join [NL] (map strip (split_on NL s))"

definition punct_char :: "nat \<Rightarrow> nat" where
  "punct_char c =
     (if c = 8216 \<or> c = 8217 then 39 else if c = 8220 \<or> c = 8221 then 34
      else if c = 8211 \<or> c = 8212 then 45 else if c = 160 then 32 else c)"

definition punct :: "ustr \<Rightarrow> ustr" where
  "punct s = fold (\<lambda>(k, v) s. str_replace k v s) PUNCT_MAP s"

definition unify_nl :: "ustr \<Rightarrow> ustr" where
  "unify_nl s = str_replace [CR] [NL] (str_replace [CR, NL] [NL] s)"

definition clean :: "ustr \<Rightarrow> bool" where
  "clean s = list_all (\<lambda>c. punct_char c = c \<and> c \<noteq> CR) s"

definition normal_form :: "ustr \<Rightarrow> bool" where
  "normal_form s \<longleftrightarrow> clean s \<and> lines_ok s \<and> run3free s \<and> strip s = s"

text \<open>
  \<open>first_steps\<close> is the normalizer up to the stripping of the lines. \<open>asked\<close> is the
  session after one more request. \<open>alt_stage\<close> is the second numbered step of the
  resolver: the second \<^verbatim>\<open>try\<close> with its handlers and the final \<^verbatim>\<open>return\<close>.
\<close>

definition first_steps :: "ustr \<Rightarrow> ustr" where
  "first_steps s = strip_lines (unify_nl (punct s))"

definition asked :: "session \<Rightarrow> ustr \<Rightarrow> session" where
  "asked s url = s\<lparr>requested := requested s @ [url]\<rparr>"

definition alt_stage ::
  "(ustr \<Rightarrow> node) \<Rightarrow> session \<Rightarrow> ustr \<Rightarrow> ustr list \<Rightarrow> (exn + lyrics_result) \<times> session" where
  "alt_stage soup s1 url_a warns2 =
     (case alt_attempt soup s1 url_a warns2 of
        (Inr result, warns3, s2) \<Rightarrow> (Inr result, s2)
      | (Inl e2, warns3, s2) \<Rightarrow>
          (case alt_handler e2 warns3 of
             Inl e' \<Rightarrow> (Inl e', s2)
           | Inr warns4 \<Rightarrow> (Inr (None, url_a, warns4), s2)))"

definition alt_stage_nkb24 ::
  "(ustr \<Rightarrow> node) \<Rightarrow> session \<Rightarrow> ustr \<Rightarrow> ustr list \<Rightarrow> (exn + lyrics_result) \<times> session" where
  "alt_stage_nkb24 soup s1 aurl warns2 =
     (case alt_attempt_nkb24 soup s1 aurl warns2 of
        (Inr result, warns3, s2) \<Rightarrow> (Inr result, s2)
      | (Inl e2, warns3, s2) \<Rightarrow>
          (case alt_handler_nkb24 e2 warns3 of
             Inl e' \<Rightarrow> (Inl e', s2)
           | Inr warns4 \<Rightarrow> (Inr (None, aurl, warns4), s2)))"

section \<open>Lemmas about the string functions\<close>

subsection \<open>The character tables on ASCII\<close>

lemma isdigit_ascii: "c < 128 \<Longrightarrow> isdigit c = (48 \<le> c \<and> c \<le> 57)"
  by (auto simp: isdigit_def in_ranges_def DECIMAL_DIGITS_def)

lemma digit_value_ascii: "48 \<le> c \<Longrightarrow> c \<le> 57 \<Longrightarrow> digit_value c = c - 48"
  by (simp add: digit_value_def DECIMAL_DIGITS_def)

lemma is_word_char_ascii:
  "c < 128 \<Longrightarrow>
   is_word_char c = ((48 \<le> c \<and> c \<le> 57) \<or> (65 \<le> c \<and> c \<le> 90) \<or> c = 95 \<or> (97 \<le> c \<and> c \<le> 122))"
  by (auto simp: is_word_char_def in_ranges_def WORD_CHARS_def)

subsection \<open>strip\<close>

lemma strip_Nil [simp]: "strip [] = []" by (simp add: strip_def)

lemma strip_fixed_iff:
  "strip l = l \<longleftrightarrow> (l = [] \<or> (\<not> isspace (hd l) \<and> \<not> isspace (last l)))"
proof (cases "l = []")
  case True then show ?thesis by simp
next
  case False
  show ?thesis
  proof
    assume "strip l = l"
    then show "l = [] \<or> (\<not> isspace (hd l) \<and> \<not> isspace (last l))"
      by (metis dropWhile_eq_self_iff hd_dropWhile last_appendR last_rev
          rev_is_Nil_conv rev_rev_ident strip_def takeWhile_dropWhile_id)
  next
    assume "l = [] \<or> (\<not> isspace (hd l) \<and> \<not> isspace (last l))"
    with False have h: "\<not> isspace (hd l)" and t: "\<not> isspace (last l)" by auto
    from h False have 1: "dropWhile isspace l = l" by (cases l) auto
    from t False have 2: "dropWhile isspace (rev l) = rev l" by (cases "rev l") (auto simp: last_rev hd_rev)
    show "strip l = l" by (simp add: strip_def 1 2)
  qed
qed

lemma strip_decomp: "\<exists>a b. s = a @ strip s @ b"
proof -
  let ?m = "dropWhile isspace s"
  have "s = takeWhile isspace s @ ?m" by simp
  moreover have "rev ?m = takeWhile isspace (rev ?m) @ dropWhile isspace (rev ?m)" by simp
  then have "?m = strip s @ rev (takeWhile isspace (rev ?m))"
    unfolding strip_def by (metis rev_append rev_rev_ident)
  ultimately show ?thesis by (metis)
qed

lemma set_strip: "set (strip s) \<subseteq> set s"
  using strip_decomp [of s] by (metis Un_upper1 Un_upper2 set_append subset_trans)

lemma strip_idem [simp]: "strip (strip s) = strip s"
proof (cases "strip s = []")
  case True then show ?thesis by simp
next
  case False
  let ?m = "dropWhile isspace s"
  let ?r = "dropWhile isspace (rev ?m)"
  have s: "strip s = rev ?r" by (simp add: strip_def)
  from False s have rne: "?r \<noteq> []" by simp
  then have "\<not> isspace (hd ?r)" by (rule hd_dropWhile)
  then have l: "\<not> isspace (last (strip s))" using rne by (simp add: s last_rev)
  have mne: "?m \<noteq> []"
    using rne by (metis dropWhile.simps(1) rev.simps(1))
  have hm: "\<not> isspace (hd ?m)" using mne by (rule hd_dropWhile)
  have "rev ?m = takeWhile isspace (rev ?m) @ ?r" by simp
  then have "?m = strip s @ rev (takeWhile isspace (rev ?m))"
    unfolding s by (metis rev_append rev_rev_ident)
  then have "hd ?m = hd (strip s)" using False by (metis hd_append2)
  with hm l show ?thesis by (simp add: strip_fixed_iff)
qed

subsection \<open>str_replace\<close>

lemma str_replace_single:
  "str_replace [k] [v] s = map (\<lambda>c. if c = k then v else c) s"
proof (induction s)
  case Nil
  show ?case by (simp add: str_replace.simps)
next
  case (Cons c cs)
  then show ?case
    by (subst str_replace.simps) auto
qed

lemma str_replace_absent:
  "old \<noteq> [] \<Longrightarrow> hd old \<notin> set s \<Longrightarrow> str_replace old new s = s"
proof (induction s)
  case Nil
  then show ?case by (simp add: str_replace.simps)
next
  case (Cons c cs)
  from Cons.prems have np: "\<not> prefix old (c # cs)"
    by (cases old) auto
  from Cons.prems have "str_replace old new cs = cs" by (intro Cons.IH) auto
  with np Cons.prems show ?case
    by (subst str_replace.simps) simp
qed

lemma set_str_replace_crnl: "set (str_replace [CR, NL] [NL] s) \<subseteq> set s"
proof (induction s rule: length_induct)
  case (1 s)
  show ?case
  proof (cases s)
    case Nil
    then show ?thesis by (simp add: str_replace.simps)
  next
    case (Cons c cs)
    show ?thesis
    proof (cases "prefix [CR, NL] s")
      case True
      then obtain r where s: "s = CR # NL # r" by (auto simp: prefix_def)
      have "set (str_replace [CR, NL] [NL] r) \<subseteq> set r" using 1 s by simp
      then show ?thesis
        by (subst str_replace.simps) (auto simp: s)
    next
      case False
      have "set (str_replace [CR, NL] [NL] cs) \<subseteq> set cs" using 1 Cons by simp
      with False show ?thesis
        by (subst str_replace.simps) (auto simp: Cons)
    qed
  qed
qed

subsection \<open>split and join\<close>

lemma split_on_not_Nil [simp]: "split_on sep s \<noteq> []"
  by (induction s) (auto split: list.splits)

lemma split_on_Cons_sep [simp]: "split_on sep (sep # cs) = [] # split_on sep cs"
  by simp

lemma split_on_Cons_other:
  "c \<noteq> sep \<Longrightarrow> split_on sep (c # cs) = (c # hd (split_on sep cs)) # tl (split_on sep cs)"
  by (cases "split_on sep cs") auto

declare split_on.simps(2) [simp del]
declare split_on_Cons_other [simp]

lemma join_Cons: "ls \<noteq> [] \<Longrightarrow> str_join sep (l # ls) = l @ sep @ str_join sep ls"
  by (cases ls) auto

lemma join_split [simp]: "str_join [sep] (split_on sep s) = s"
proof (induction s)
  case Nil show ?case by simp
next
  case (Cons c cs)
  show ?case
  proof (cases "c = sep")
    case True
    with Cons show ?thesis by (simp add: join_Cons)
  next
    case False
    obtain l ls where sp: "split_on sep cs = l # ls" by (cases "split_on sep cs") auto
    with Cons have "str_join [sep] (l # ls) = cs" by simp
    then have "str_join [sep] ((c # l) # ls) = c # cs" by (cases ls) auto
    with False sp show ?thesis by simp
  qed
qed

lemma split_line_no_sep: "l \<in> set (split_on sep s) \<Longrightarrow> sep \<notin> set l"
proof (induction s arbitrary: l)
  case Nil then show ?case by simp
next
  case (Cons c cs)
  show ?case
  proof (cases "c = sep")
    case True
    with Cons show ?thesis by auto
  next
    case False
    obtain l' ls' where sp: "split_on sep cs = l' # ls'"
      by (cases "split_on sep cs") auto
    with False Cons.prems have "l = c # l' \<or> l \<in> set ls'" by simp
    then show ?thesis using Cons.IH [of l'] Cons.IH [of l] sp False by auto
  qed
qed

lemma split_line_subset: "l \<in> set (split_on sep s) \<Longrightarrow> set l \<subseteq> set s"
proof (induction s arbitrary: l)
  case Nil then show ?case by simp
next
  case (Cons c cs)
  show ?case
  proof (cases "c = sep")
    case True
    with Cons show ?thesis by auto
  next
    case False
    obtain l' ls' where sp: "split_on sep cs = l' # ls'"
      by (cases "split_on sep cs") auto
    with False Cons.prems have "l = c # l' \<or> l \<in> set ls'" by simp
    then show ?thesis using Cons.IH [of l'] Cons.IH [of l] sp by auto
  qed
qed

lemma split_join:
  "ls \<noteq> [] \<Longrightarrow> \<forall>l\<in>set ls. sep \<notin> set l \<Longrightarrow> split_on sep (str_join [sep] ls) = ls"
proof (induction ls)
  case Nil then show ?case by simp
next
  case (Cons l ls)
  from Cons.prems have nl: "sep \<notin> set l" by simp
  show ?case
  proof (cases ls)
    case Nil
    from nl have "split_on sep l = [l]"
      by (induction l) auto
    with Nil show ?thesis by simp
  next
    case (Cons l' ls')
    with Cons.IH Cons.prems have ih: "split_on sep (str_join [sep] ls) = ls" by simp
    from nl have "split_on sep (l @ sep # r) = l # split_on sep r" for r
      by (induction l) auto
    with ih Cons show ?thesis by simp
  qed
qed

lemma set_join: "set (str_join sep ls) \<subseteq> set sep \<union> \<Union> (set ` set ls)"
  by (induction sep ls rule: str_join.induct) auto

lemma split_on_append_sep:
  "split_on sep (a @ sep # b) = split_on sep a @ split_on sep b"
proof (induction a)
  case Nil show ?case by simp
next
  case (Cons c cs)
  show ?case
  proof (cases "c = sep")
    case True with Cons show ?thesis by simp
  next
    case False
    obtain l ls where sp: "split_on sep cs = l # ls" by (cases "split_on sep cs") auto
    with Cons False show ?thesis by simp
  qed
qed

lemma split_on_snoc_sep: "split_on sep (a @ [sep]) = split_on sep a @ [[]]"
  using split_on_append_sep [of sep a "[]"] by simp

lemma split_on_snoc_other:
  "c \<noteq> sep \<Longrightarrow> split_on sep (a @ [c]) = butlast (split_on sep a) @ [last (split_on sep a) @ [c]]"
proof (induction a)
  case Nil then show ?case by simp
next
  case (Cons d ds)
  show ?case
  proof (cases "d = sep")
    case True with Cons show ?thesis by simp
  next
    case False
    obtain l ls where sp: "split_on sep ds = l # ls" by (cases "split_on sep ds") auto
    with Cons False show ?thesis
      by (cases ls) auto
  qed
qed

subsection \<open>sub_nl3\<close>

lemma lead_simps [simp]:
  "lead [] = 0"
  "lead (NL # s) = Suc (lead s)"
  "c \<noteq> NL \<Longrightarrow> lead (c # s) = 0"
  by (simp_all add: lead_def)

lemma sub_nl3_Cons:
  "sub_nl3 (c # cs) =
     (if 3 \<le> lead (c # cs) then NL # NL # sub_nl3 (dropWhile (\<lambda>x. x = NL) (c # cs))
      else c # sub_nl3 cs)"
  by (simp add: lead_def)

declare sub_nl3.simps(2) [simp del]

lemma run3free_Cons:
  "run3free (c # s) \<longleftrightarrow> run3free s \<and> (c = NL \<longrightarrow> lead s < 2)"
proof (cases s)
  case Nil then show ?thesis by simp
next
  case (Cons a s1)
  show ?thesis
  proof (cases s1)
    case Nil with Cons show ?thesis by (cases "a = NL") auto
  next
    case (Cons b s2)
    with \<open>s = a # s1\<close> show ?thesis
      by (cases "a = NL"; cases "b = NL") auto
  qed
qed

lemma lead_dropWhile [simp]: "lead (dropWhile (\<lambda>x. x = NL) s) = 0"
  by (induction s) (auto simp: lead_def)

lemma lead_sub_nl3: "lead (sub_nl3 s) = min 2 (lead s)"
proof (induction s rule: sub_nl3.induct)
  case 1 show ?case by simp
next
  case (2 c cs)
  show ?case
  proof (cases "3 \<le> lead (c # cs)")
    case True
    then have "3 \<le> length (takeWhile (\<lambda>x. x = NL) (c # cs))" by (simp add: lead_def)
    from 2(1) [OF this] True show ?thesis
      by (simp add: sub_nl3_Cons)
  next
    case False
    then have "\<not> 3 \<le> length (takeWhile (\<lambda>x. x = NL) (c # cs))" by (simp add: lead_def)
    from 2(2) [OF this] False show ?thesis
      by (cases "c = NL") (auto simp: sub_nl3_Cons)
  qed
qed

lemma run3free_sub_nl3: "run3free (sub_nl3 s)"
proof (induction s rule: sub_nl3.induct)
  case 1 show ?case by simp
next
  case (2 c cs)
  show ?case
  proof (cases "3 \<le> lead (c # cs)")
    case True
    then have "3 \<le> length (takeWhile (\<lambda>x. x = NL) (c # cs))" by (simp add: lead_def)
    from 2(1) [OF this] True show ?thesis
      by (simp add: sub_nl3_Cons run3free_Cons lead_sub_nl3)
  next
    case False
    then have "\<not> 3 \<le> length (takeWhile (\<lambda>x. x = NL) (c # cs))" by (simp add: lead_def)
    from 2(2) [OF this] False show ?thesis
      by (cases "c = NL") (auto simp: sub_nl3_Cons run3free_Cons lead_sub_nl3)
  qed
qed

lemma run3free_lead: "run3free s \<Longrightarrow> lead s \<le> 2"
  by (cases s) (auto simp: run3free_Cons lead_def)

lemma sub_nl3_fixed: "run3free s \<Longrightarrow> sub_nl3 s = s"
proof (induction s)
  case Nil show ?case by simp
next
  case (Cons c cs)
  from Cons.prems have "lead (c # cs) \<le> 2" by (rule run3free_lead)
  moreover from Cons.prems have "run3free cs" by (simp add: run3free_Cons)
  ultimately show ?case using Cons.IH by (simp add: sub_nl3_Cons)
qed

lemma set_sub_nl3: "set (sub_nl3 s) \<subseteq> set s"
proof (induction s rule: sub_nl3.induct)
  case 1 show ?case by simp
next
  case (2 c cs)
  show ?case
  proof (cases "3 \<le> lead (c # cs)")
    case True
    then have l: "3 \<le> length (takeWhile (\<lambda>x. x = NL) (c # cs))" by (simp add: lead_def)
    then have "c = NL" by (auto split: if_splits)
    moreover have "set (dropWhile (\<lambda>x. x = NL) (c # cs)) \<subseteq> set (c # cs)"
      by (rule set_dropWhileD [THEN subsetI])
    ultimately show ?thesis using 2(1) [OF l] True
      by (auto simp: sub_nl3_Cons simp del: dropWhile.simps)
  next
    case False
    then have "\<not> 3 \<le> length (takeWhile (\<lambda>x. x = NL) (c # cs))" by (simp add: lead_def)
    from 2(2) [OF this] False show ?thesis
      by (auto simp: sub_nl3_Cons)
  qed
qed

lemma run3free_suffix: "run3free (a @ s) \<Longrightarrow> run3free s"
  by (induction a) (auto simp: run3free_Cons)

lemma lead_prefix_le: "lead a \<le> lead (a @ b)"
  by (induction a) (auto simp: lead_def)

lemma run3free_prefix: "run3free (a @ b) \<Longrightarrow> run3free a"
proof (induction a)
  case Nil show ?case by simp
next
  case (Cons c cs)
  then show ?case
    using lead_prefix_le [of cs b] by (auto simp: run3free_Cons)
qed

lemma run3free_strip: "run3free s \<Longrightarrow> run3free (strip s)"
  using strip_decomp [of s] by (metis run3free_prefix run3free_suffix)

lemma run3free_no_triple: "run3free s \<Longrightarrow> s \<noteq> a @ [NL, NL, NL] @ b"
proof
  assume "run3free s" and "s = a @ [NL, NL, NL] @ b"
  then have "run3free ([NL, NL, NL] @ b)" using run3free_suffix by blast
  then show False by (cases b) auto
qed

subsection \<open>split of sub_nl3\<close>

lemma split_replicate_NL:
  "split_on NL (replicate k NL @ r) = replicate k [] @ split_on NL r"
  by (induction k) auto

lemma split_sub_nl3:
  "hd (split_on NL (sub_nl3 s)) = hd (split_on NL s) \<and>
   set (tl (split_on NL (sub_nl3 s))) \<subseteq> set (tl (split_on NL s))"
proof (induction s rule: sub_nl3.induct)
  case 1 show ?case by simp
next
  case (2 c cs)
  show ?case
  proof (cases "3 \<le> lead (c # cs)")
    case True
    then have l: "3 \<le> length (takeWhile (\<lambda>x. x = NL) (c # cs))" by (simp add: lead_def)
    let ?r = "dropWhile (\<lambda>x. x = NL) (c # cs)"
    have "c # cs = takeWhile (\<lambda>x. x = NL) (c # cs) @ ?r" by simp
    moreover have "takeWhile (\<lambda>x. x = NL) (c # cs) = replicate (lead (c # cs)) NL"
      unfolding lead_def
      by (metis (mono_tags, lifting) replicate_length_same set_takeWhileD)
    ultimately have "c # cs = replicate (lead (c # cs)) NL @ ?r" by simp
    then have sp: "split_on NL (c # cs) = replicate (lead (c # cs)) [] @ split_on NL ?r"
      using split_replicate_NL by metis
    obtain k where k: "lead (c # cs) = Suc (Suc (Suc k))"
      using True by (metis Suc_le_D numeral_3_eq_3 Suc_le_mono)
    obtain l ls where r: "split_on NL ?r = l # ls" by (cases "split_on NL ?r") auto
    obtain l' ls' where r': "split_on NL (sub_nl3 ?r) = l' # ls'"
      by (cases "split_on NL (sub_nl3 ?r)") auto
    from 2(1) [OF l] r r' have "l' = l" "set ls' \<subseteq> set ls" by auto
    then show ?thesis using True
      by (auto simp: sub_nl3_Cons sp k r r' simp del: dropWhile.simps)
  next
    case False
    then have "\<not> 3 \<le> length (takeWhile (\<lambda>x. x = NL) (c # cs))" by (simp add: lead_def)
    note ih = 2(2) [OF this]
    obtain l ls where r: "split_on NL cs = l # ls" by (cases "split_on NL cs") auto
    obtain l' ls' where r': "split_on NL (sub_nl3 cs) = l' # ls'"
      by (cases "split_on NL (sub_nl3 cs)") auto
    from ih r r' have "l' = l" "set ls' \<subseteq> set ls" by auto
    then show ?thesis using False
      by (cases "c = NL") (auto simp: sub_nl3_Cons r r')
  qed
qed

lemma split_sub_nl3_subset: "set (split_on NL (sub_nl3 s)) \<subseteq> set (split_on NL s)"
proof -
  obtain l ls where r: "split_on NL s = l # ls" by (cases "split_on NL s") auto
  obtain l' ls' where r': "split_on NL (sub_nl3 s) = l' # ls'"
    by (cases "split_on NL (sub_nl3 s)") auto
  from split_sub_nl3 [of s] r r' show ?thesis by auto
qed

subsection \<open>lines\<close>

lemma isspace_NL [simp]: "isspace NL" by (simp add: isspace_def)

lemma lines_ok_lstrip: "lines_ok s \<Longrightarrow> lines_ok (dropWhile isspace s)"
proof (induction s)
  case Nil then show ?case by simp
next
  case (Cons c cs)
  show ?case
  proof (cases "isspace c")
    case False
    with Cons.prems show ?thesis by simp
  next
    case True
    have "c = NL"
    proof (rule ccontr)
      assume ne: "c \<noteq> NL"
      with Cons.prems have "strip (c # hd (split_on NL cs)) = c # hd (split_on NL cs)"
        by (simp add: lines_ok_def)
      then show False using True by (simp add: strip_fixed_iff)
    qed
    with Cons.prems have "lines_ok cs" by (simp add: lines_ok_def)
    with Cons.IH True show ?thesis by simp
  qed
qed

lemma lines_ok_rstrip: "lines_ok s \<Longrightarrow> lines_ok (rev (dropWhile isspace (rev s)))"
proof (induction s rule: rev_induct)
  case Nil then show ?case by simp
next
  case (snoc c cs)
  show ?case
  proof (cases "isspace c")
    case False
    with snoc.prems show ?thesis by simp
  next
    case True
    have "c = NL"
    proof (rule ccontr)
      assume ne: "c \<noteq> NL"
      with snoc.prems have "strip (last (split_on NL cs) @ [c]) = last (split_on NL cs) @ [c]"
        by (simp add: lines_ok_def split_on_snoc_other)
      then show False using True by (simp add: strip_fixed_iff)
    qed
    with snoc.prems have "lines_ok cs" by (simp add: lines_ok_def split_on_snoc_sep)
    with snoc.IH True show ?thesis by simp
  qed
qed

lemma lines_ok_strip: "lines_ok s \<Longrightarrow> lines_ok (strip s)"
  unfolding strip_def by (intro lines_ok_rstrip lines_ok_lstrip)

lemma lines_ok_sub_nl3: "lines_ok s \<Longrightarrow> lines_ok (sub_nl3 s)"
  unfolding lines_ok_def list_all_iff using split_sub_nl3_subset [of s] by blast

lemma split_strip_lines: "split_on NL (strip_lines s) = map strip (split_on NL s)"
  unfolding strip_lines_def
proof (rule split_join)
  show "map strip (split_on NL s) \<noteq> []" by simp
  show "\<forall>l\<in>set (map strip (split_on NL s)). NL \<notin> set l"
    using split_line_no_sep [of _ NL s] set_strip by fastforce
qed

lemma lines_ok_strip_lines: "lines_ok (strip_lines s)"
  by (simp add: lines_ok_def split_strip_lines list_all_iff)

lemma strip_lines_fixed: "lines_ok s \<Longrightarrow> strip_lines s = s"
proof -
  assume "lines_ok s"
  then have "map strip (split_on NL s) = split_on NL s"
    by (simp add: lines_ok_def list_all_iff map_idI)
  then show ?thesis by (simp add: strip_lines_def)
qed

lemma set_strip_lines: "set (strip_lines s) \<subseteq> insert NL (set s)"
proof
  fix x
  assume "x \<in> set (strip_lines s)"
  then have "x \<in> set [NL] \<union> \<Union> (set ` set (map strip (split_on NL s)))"
    unfolding strip_lines_def using set_join by blast
  then consider "x = NL" | l where "l \<in> set (split_on NL s)" "x \<in> set (strip l)"
    by auto
  then show "x \<in> insert NL (set s)"
  proof cases
    case 1 then show ?thesis by simp
  next
    case 2
    then have "x \<in> set l" using set_strip by blast
    with 2 show ?thesis using split_line_subset by blast
  qed
qed

subsection \<open>character steps\<close>

lemma punct_char_unfold:
  "punct_char c =
     (\<lambda>c. if c = 160 then 32 else c) ((\<lambda>c. if c = 8212 then 45 else c)
       ((\<lambda>c. if c = 8211 then 45 else c) ((\<lambda>c. if c = 8221 then 34 else c)
         ((\<lambda>c. if c = 8220 then 34 else c) ((\<lambda>c. if c = 8217 then 39 else c)
           ((\<lambda>c. if c = 8216 then 39 else c) c))))))"
  by (simp add: punct_char_def)

lemma punct_map: "punct s = map punct_char s"
  unfolding punct_def PUNCT_MAP_def
  by (simp add: str_replace_single punct_char_unfold comp_def)

lemma punct_char_NL: "punct_char NL = NL"
  by (simp add: punct_char_def)

lemma punct_char_idem: "punct_char (punct_char c) = punct_char c"
  by (simp add: punct_char_def)

lemma punct_fixed: "clean s \<Longrightarrow> punct s = s"
  by (simp add: punct_map clean_def list_all_iff map_idI)

lemma unify_nl_fixed: "clean s \<Longrightarrow> unify_nl s = s"
proof -
  assume "clean s"
  then have "CR \<notin> set s" by (auto simp: clean_def list_all_iff)
  then show ?thesis by (simp add: unify_nl_def str_replace_absent)
qed

lemma clean_unify_punct: "clean (unify_nl (punct s))"
proof -
  have "set (str_replace [CR, NL] [NL] (punct s)) \<subseteq> set (punct s)"
    by (rule set_str_replace_crnl)
  then have "\<forall>c\<in>set (str_replace [CR, NL] [NL] (punct s)). punct_char c = c"
    by (auto simp: punct_map punct_char_idem)
  then have "\<forall>c\<in>set (unify_nl (punct s)). punct_char c = c \<and> c \<noteq> CR"
    unfolding unify_nl_def str_replace_single using punct_char_NL by auto
  then show ?thesis
    by (simp add: clean_def list_all_iff)
qed

lemma clean_subset: "clean s \<Longrightarrow> set t \<subseteq> insert NL (set s) \<Longrightarrow> clean t"
  unfolding clean_def list_all_iff using punct_char_NL by auto

lemma normalize_str_alt:
  "normalize_str s = strip (sub_nl3 (strip_lines (unify_nl (punct s))))"
  by (simp add: normalize_str_def normalize_preserve_newlines_def strip_lines_def
      unify_nl_def punct_def Let_def)

lemma normalize_preserve_newlines_Some:
  "normalize_preserve_newlines (Some s) = Some (normalize_str s)"
  by (simp add: normalize_str_def normalize_preserve_newlines_def Let_def)

lemma normalize_eq: "normalize s = normalize_preserve_newlines s"
  by (simp add: normalize_def normalize_preserve_newlines_def)

lemma normal_form_fixed: "normal_form s \<Longrightarrow> normalize_str s = s"
  by (simp add: normal_form_def normalize_str_alt punct_fixed unify_nl_fixed
      strip_lines_fixed sub_nl3_fixed)

lemma normal_form_normalize: "normal_form (normalize_str s)"
proof -
  let ?b = "unify_nl (punct s)"
  let ?c = "strip_lines ?b"
  let ?d = "sub_nl3 ?c"
  have "set (strip ?d) \<subseteq> insert NL (set ?b)"
    using set_strip [of ?d] set_sub_nl3 [of ?c] set_strip_lines [of ?b] by blast
  then have "clean (strip ?d)" using clean_unify_punct clean_subset by blast
  moreover have "lines_ok (strip ?d)"
    by (intro lines_ok_strip lines_ok_sub_nl3 lines_ok_strip_lines)
  moreover have "run3free (strip ?d)"
    by (intro run3free_strip run3free_sub_nl3)
  ultimately show ?thesis by (simp add: normal_form_def normalize_str_alt)
qed

lemma normalize_str_idem: "normalize_str (normalize_str s) = normalize_str s"
  by (simp add: normal_form_fixed normal_form_normalize)

lemma split_on_absent: "sep \<notin> set t \<Longrightarrow> split_on sep t = [t]"
  by (induction t) auto

lemma run3free_absent: "NL \<notin> set t \<Longrightarrow> run3free t"
  by (induction t) (auto simp: run3free_Cons)

lemma normalize_str_one_line:
  assumes "list_all (\<lambda>c. c \<noteq> NL \<and> c \<noteq> CR \<and> punct_char c = c) t"
    and "strip t = t"
  shows "normalize_str t = t"
proof -
  from assms(1) have nl: "NL \<notin> set t" and "clean t"
    by (auto simp: list_all_iff clean_def)
  moreover from nl assms(2) have "lines_ok t"
    by (simp add: lines_ok_def split_on_absent)
  moreover from nl have "run3free t" by (rule run3free_absent)
  ultimately show ?thesis using assms(2)
    by (intro normal_form_fixed) (simp add: normal_form_def)
qed

subsection \<open>A newline separates the work of the first three steps\<close>

lemma crnl_sep: "\<exists>p. \<forall>z. str_replace [CR, NL] [NL] (a @ NL # z) = p @ NL # str_replace [CR, NL] [NL] z"
proof (induction a rule: length_induct)
  case (1 a)
  show ?case
  proof (cases a)
    case Nil
    have "str_replace [CR, NL] [NL] (NL # z) = [] @ NL # str_replace [CR, NL] [NL] z" for z
      by (subst str_replace.simps) simp
    with Nil show ?thesis by auto
  next
    case (Cons c cs)
    show ?thesis
    proof (cases "c = CR \<and> (cs = [] \<or> hd cs = NL)")
      case True
      show ?thesis
      proof (cases cs)
        case Nil
        have "str_replace [CR, NL] [NL] (CR # NL # z) = [] @ NL # str_replace [CR, NL] [NL] z" for z
          by (subst str_replace.simps) simp
        with Cons Nil True show ?thesis by auto
      next
        case (Cons d ds)
        with True have d: "d = NL" and c: "c = CR" by auto
        have "length ds < length a" using \<open>a = c # cs\<close> Cons by simp
        with 1 obtain p where
          p: "\<forall>z. str_replace [CR, NL] [NL] (ds @ NL # z) = p @ NL # str_replace [CR, NL] [NL] z"
          by blast
        have "str_replace [CR, NL] [NL] (CR # NL # ds @ NL # z)
              = (NL # p) @ NL # str_replace [CR, NL] [NL] z" for z
          by (subst str_replace.simps) (simp add: p)
        with \<open>a = c # cs\<close> Cons c d show ?thesis by auto
      qed
    next
      case False
      have "length cs < length a" using Cons by simp
      with 1 obtain p where
        p: "\<forall>z. str_replace [CR, NL] [NL] (cs @ NL # z) = p @ NL # str_replace [CR, NL] [NL] z"
        by blast
      have "\<not> prefix [CR, NL] (c # cs @ NL # z)" for z
        using False by (cases cs) auto
      then have "str_replace [CR, NL] [NL] (c # cs @ NL # z)
            = (c # p) @ NL # str_replace [CR, NL] [NL] z" for z
        by (subst str_replace.simps) (simp add: p)
      with Cons show ?thesis by auto
    qed
  qed
qed

lemma join_append:
  "xs \<noteq> [] \<Longrightarrow> ys \<noteq> [] \<Longrightarrow> str_join sep (xs @ ys) = str_join sep xs @ sep @ str_join sep ys"
proof (induction xs)
  case Nil then show ?case by simp
next
  case (Cons x xs)
  then show ?case by (cases xs) (auto simp: join_Cons)
qed

lemma strip_lines_sep: "strip_lines (p @ NL # w) = strip_lines p @ NL # strip_lines w"
  by (simp add: strip_lines_def split_on_append_sep join_append)

lemma first_steps_sep: "\<exists>A. \<forall>z. first_steps (a @ NL # z) = A @ NL # first_steps z"
proof -
  from crnl_sep [of "map punct_char a"] obtain p where
    p: "\<forall>z. str_replace [CR, NL] [NL] (map punct_char a @ NL # z)
           = p @ NL # str_replace [CR, NL] [NL] z"
    by auto
  have "first_steps (a @ NL # z)
        = strip_lines (str_replace [CR] [NL] p) @ NL # first_steps z" for z
    by (simp add: first_steps_def unify_nl_def punct_map punct_char_NL p str_replace_single
        strip_lines_sep)
  then show ?thesis by blast
qed

lemma lead_replicate [simp]: "lead (replicate k NL @ B) = k + lead B"
  by (induction k) auto

lemma dropWhile_replicate_NL [simp]:
  "dropWhile (\<lambda>x. x = NL) (replicate k NL @ B) = dropWhile (\<lambda>x. x = NL) B"
  by (induction k) auto

lemma lead_zero_dropWhile: "lead B = 0 \<Longrightarrow> dropWhile (\<lambda>x. x = NL) B = B"
  by (cases B) (auto simp: lead_def split: if_splits)

lemma sub_nl3_run_head:
  assumes "2 \<le> k"
  shows "sub_nl3 (replicate k NL @ B) = NL # NL # sub_nl3 (dropWhile (\<lambda>x. x = NL) B)"
proof (cases "3 \<le> k + lead B")
  case True
  from assms obtain j where k: "k = Suc j" by (cases k) auto
  have "sub_nl3 (NL # replicate j NL @ B) =
          NL # NL # sub_nl3 (dropWhile (\<lambda>x. x = NL) (NL # replicate j NL @ B))"
    using True k by (subst sub_nl3_Cons) (simp del: dropWhile.simps)
  then show ?thesis using k by simp
next
  case False
  with assms have k: "k = 2" and l: "lead B = 0" by auto
  have "sub_nl3 (NL # NL # B) = NL # NL # sub_nl3 B"
    using l by (simp add: sub_nl3_Cons)
  with k l show ?thesis
    by (simp add: lead_zero_dropWhile numeral_2_eq_2)
qed

lemma takeWhile_NL_replicate:
  "takeWhile (\<lambda>x. x = NL) s = replicate (lead s) NL"
  unfolding lead_def by (induction s) auto

lemma lead_append_rest:
  "dropWhile (\<lambda>x. x = NL) A \<noteq> [] \<Longrightarrow> lead (A @ X) = lead A"
  by (induction A) (auto simp: lead_def)

lemma dropWhile_append_rest:
  "dropWhile (\<lambda>x. x = NL) A \<noteq> [] \<Longrightarrow>
   dropWhile (\<lambda>x. x = NL) (A @ X) = dropWhile (\<lambda>x. x = NL) A @ X"
  by (induction A) auto

subsection \<open>White space around a text\<close>

lemma strip_lpad: "\<forall>c\<in>set u. isspace c \<Longrightarrow> strip (u @ s) = strip s"
  by (simp add: strip_def dropWhile_append2)

lemma strip_rpad:
  assumes "\<forall>c\<in>set v. isspace c"
  shows "strip (s @ v) = strip s"
proof (cases "\<forall>c\<in>set s. isspace c")
  case True
  with assms have a: "dropWhile isspace (s @ v) = []" and b: "dropWhile isspace s = []"
    by (auto simp: dropWhile_eq_Nil_conv)
  show ?thesis unfolding strip_def a b ..
next
  case False
  then obtain x where "x \<in> set s" "\<not> isspace x" by blast
  then have a: "dropWhile isspace (s @ v) = dropWhile isspace s @ v"
    by (rule dropWhile_append1)
  have b: "dropWhile isspace (rev v @ t) = dropWhile isspace t" for t
    using assms by (intro dropWhile_append2) simp
  show ?thesis by (simp add: strip_def a b)
qed

lemma strip_replicate_NL [simp]: "strip (replicate k NL) = []"
  using strip_lpad [of "replicate k NL" "[]"] by simp

subsection \<open>sub_nl3 on a text in two parts\<close>

lemma sub_nl3_step:
  assumes "dropWhile (\<lambda>x. x = NL) (c # cs) \<noteq> []"
  shows "sub_nl3 ((c # cs) @ X) =
     (if 3 \<le> lead (c # cs) then NL # NL # sub_nl3 (dropWhile (\<lambda>x. x = NL) (c # cs) @ X)
      else c # sub_nl3 (cs @ X))"
  using lead_append_rest [OF assms, of X] dropWhile_append_rest [OF assms, of X]
    sub_nl3_Cons [of c "cs @ X"] by simp

lemma sub_nl3_replicate:
  assumes "lead V = 0"
  shows "sub_nl3 (replicate k NL @ V) = replicate (min k 2) NL @ sub_nl3 V"
proof -
  consider "k = 0" | "k = 1" | "2 \<le> k" by linarith
  then show ?thesis
  proof cases
    case 1 then show ?thesis by simp
  next
    case 2
    have "sub_nl3 (NL # V) = NL # sub_nl3 V"
      using assms by (simp add: sub_nl3_Cons)
    with 2 show ?thesis by simp
  next
    case 3
    then have "min k 2 = 2" by simp
    with sub_nl3_run_head [OF 3, of V] assms show ?thesis
      by (simp add: lead_zero_dropWhile numeral_2_eq_2)
  qed
qed

lemma sub_nl3_append_last:
  "U \<noteq> [] \<Longrightarrow> last U \<noteq> NL \<Longrightarrow> sub_nl3 (U @ V) = sub_nl3 U @ sub_nl3 V"
proof (induction U rule: length_induct)
  case (1 U)
  from 1(2) obtain c cs where U: "U = c # cs" by (cases U) auto
  let ?U2 = "dropWhile (\<lambda>x. x = NL) U"
  have ne: "?U2 \<noteq> []"
    using 1(2,3) last_in_set [of U] by (auto simp: dropWhile_eq_Nil_conv)
  have l2: "last ?U2 = last U"
    using ne last_appendR [of ?U2 "takeWhile (\<lambda>x. x = NL) U"] by simp
  have step: "sub_nl3 (U @ X) =
      (if 3 \<le> lead U then NL # NL # sub_nl3 (?U2 @ X) else c # sub_nl3 (cs @ X))" for X
    using sub_nl3_step [of c cs X] ne unfolding U by simp
  show ?case
  proof (cases "3 \<le> lead U")
    case True
    then have "c = NL" using U by (cases "c = NL") auto
    then have "length ?U2 < length U" using U
      by (auto simp: length_dropWhile_le less_Suc_eq_le)
    with 1(1) ne l2 1(3) have "sub_nl3 (?U2 @ V) = sub_nl3 ?U2 @ sub_nl3 V" by simp
    with True step [of V] step [of "[]"] show ?thesis by simp
  next
    case False
    show ?thesis
    proof (cases "cs = []")
      case True
      with False step [of V] step [of "[]"] show ?thesis by simp
    next
      case ne_cs: False
      then have "last cs = last U" using U by simp
      moreover have "length cs < length U" using U by simp
      ultimately have "sub_nl3 (cs @ V) = sub_nl3 cs @ sub_nl3 V"
        using 1(1) ne_cs 1(3) by simp
      with False step [of V] step [of "[]"] show ?thesis by simp
    qed
  qed
qed

lemma sub_nl3_append_lead:
  "lead V = 0 \<Longrightarrow> sub_nl3 (U @ V) = sub_nl3 U @ sub_nl3 V"
proof (induction U rule: length_induct)
  case (1 U)
  show ?case
  proof (cases U)
    case Nil then show ?thesis by simp
  next
    case (Cons c cs)
    let ?U2 = "dropWhile (\<lambda>x. x = NL) U"
    show ?thesis
    proof (cases "?U2 = []")
      case True
      then have "U = replicate (lead U) NL"
        by (metis takeWhile_dropWhile_id append_Nil2 takeWhile_NL_replicate)
      then obtain m where U: "U = replicate m NL" by blast
      have "lead ([]::ustr) = 0" by simp
      from sub_nl3_replicate [OF this, of m] sub_nl3_replicate [OF 1(2), of m]
      show ?thesis unfolding U by simp
    next
      case False
      have step: "sub_nl3 (U @ X) =
          (if 3 \<le> lead U then NL # NL # sub_nl3 (?U2 @ X) else c # sub_nl3 (cs @ X))" for X
        using sub_nl3_step [of c cs X] False unfolding Cons by simp
      show ?thesis
      proof (cases "3 \<le> lead U")
        case True
        then have "c = NL" using Cons by (cases "c = NL") auto
        then have "length ?U2 < length U" using Cons
          by (auto simp: length_dropWhile_le less_Suc_eq_le)
        with 1 have "sub_nl3 (?U2 @ V) = sub_nl3 ?U2 @ sub_nl3 V" by simp
        with True step [of V] step [of "[]"] show ?thesis by simp
      next
        case nl: False
        have "length cs < length U" using Cons by simp
        with 1 have "sub_nl3 (cs @ V) = sub_nl3 cs @ sub_nl3 V" by simp
        with nl step [of V] step [of "[]"] show ?thesis by simp
      qed
    qed
  qed
qed

lemma strip_sub_nl3_fixed:
  assumes "strip X = X"
  shows "strip (sub_nl3 X) = sub_nl3 X"
proof (cases "X = []")
  case True then show ?thesis by simp
next
  case False
  with assms have h: "\<not> isspace (hd X)" and l: "\<not> isspace (last X)"
    by (simp_all add: strip_fixed_iff)
  from False obtain c cs where X: "X = c # cs" by (cases X) auto
  with h have "c \<noteq> NL" by auto
  then have 1: "sub_nl3 X = c # sub_nl3 cs" by (simp add: X sub_nl3_Cons)
  from l have "last X \<noteq> NL" by auto
  then have "lead [last X] = 0" by simp
  from sub_nl3_append_lead [OF this, of "butlast X"] False \<open>last X \<noteq> NL\<close>
  have 2: "sub_nl3 X = sub_nl3 (butlast X) @ [last X]"
    by (simp add: sub_nl3_Cons)
  from 1 have "hd (sub_nl3 X) = hd X" "sub_nl3 X \<noteq> []" by (simp_all add: X)
  moreover from 2 have "last (sub_nl3 X) = last X" by (metis last_snoc)
  ultimately show ?thesis using h l by (simp add: strip_fixed_iff)
qed

subsection \<open>The shape of a text whose lines are stripped\<close>

lemma lines_ok_space_NL:
  assumes "lines_ok (c # cs)" and "isspace c"
  shows "c = NL"
proof (rule ccontr)
  assume ne: "c \<noteq> NL"
  with assms(1) have "strip (c # hd (split_on NL cs)) = c # hd (split_on NL cs)"
    by (simp add: lines_ok_def)
  then show False using assms(2) by (simp add: strip_fixed_iff)
qed

lemma lines_ok_tl: "lines_ok (NL # cs) \<Longrightarrow> lines_ok cs"
  by (simp add: lines_ok_def)

lemma lines_ok_lead_space: "lines_ok s \<Longrightarrow> takeWhile isspace s = replicate (lead s) NL"
proof (induction s)
  case Nil then show ?case by simp
next
  case (Cons c cs)
  show ?case
  proof (cases "isspace c")
    case False
    then have "c \<noteq> NL" by auto
    with False show ?thesis by simp
  next
    case True
    with Cons.prems have c: "c = NL" by (rule lines_ok_space_NL)
    with Cons.prems have "lines_ok cs" by (simp add: lines_ok_tl)
    with Cons.IH c show ?thesis by simp
  qed
qed

lemma lines_ok_trail_space:
  "lines_ok s \<Longrightarrow> \<exists>j. takeWhile isspace (rev s) = replicate j NL"
proof (induction s rule: rev_induct)
  case Nil
  have "takeWhile isspace (rev []) = replicate 0 NL" by simp
  then show ?case by blast
next
  case (snoc c cs)
  show ?case
  proof (cases "isspace c")
    case False
    then have "takeWhile isspace (rev (cs @ [c])) = replicate 0 NL" by simp
    then show ?thesis by blast
  next
    case True
    have c: "c = NL"
    proof (rule ccontr)
      assume ne: "c \<noteq> NL"
      with snoc.prems have "strip (last (split_on NL cs) @ [c]) = last (split_on NL cs) @ [c]"
        by (simp add: lines_ok_def split_on_snoc_other)
      then show False using True by (simp add: strip_fixed_iff)
    qed
    with snoc.prems have "lines_ok cs" by (simp add: lines_ok_def split_on_snoc_sep)
    with snoc.IH obtain j where "takeWhile isspace (rev cs) = replicate j NL" by blast
    with c have "takeWhile isspace (rev (cs @ [c])) = replicate (Suc j) NL" by simp
    then show ?thesis by blast
  qed
qed

lemma lines_ok_shape:
  assumes "lines_ok Z"
  shows "\<exists>i j. Z = replicate i NL @ strip Z @ replicate j NL"
proof -
  let ?m = "dropWhile isspace Z"
  have 1: "Z = replicate (lead Z) NL @ ?m"
    using lines_ok_lead_space [OF assms] by (metis takeWhile_dropWhile_id)
  have "lines_ok ?m" using assms by (rule lines_ok_lstrip)
  then obtain j where j: "takeWhile isspace (rev ?m) = replicate j NL"
    using lines_ok_trail_space by blast
  have "rev ?m = takeWhile isspace (rev ?m) @ dropWhile isspace (rev ?m)" by simp
  then have "?m = strip Z @ rev (takeWhile isspace (rev ?m))"
    unfolding strip_def by (metis rev_append rev_rev_ident)
  then have m: "?m = strip Z @ replicate j NL" by (simp add: j)
  have "Z = replicate (lead Z) NL @ strip Z @ replicate j NL"
    using 1 by (simp only: m [symmetric])
  then show ?thesis by blast
qed

lemma strip_sub_nl3:
  assumes "lines_ok Z"
  shows "strip (sub_nl3 Z) = sub_nl3 (strip Z)"
proof -
  define X where "X = strip Z"
  from lines_ok_shape [OF assms] obtain i j where
    Z: "Z = replicate i NL @ X @ replicate j NL" unfolding X_def by blast
  have sp: "\<forall>c\<in>set (replicate k NL). isspace c" for k by simp
  have e: "lead ([]::ustr) = 0" by simp
  have r: "sub_nl3 (replicate k NL) = replicate (min k 2) NL" for k
    using sub_nl3_replicate [OF e, of k] by simp
  show ?thesis
  proof (cases "X = []")
    case True
    have "sub_nl3 (replicate i NL @ X @ replicate j NL) = replicate (min (i + j) 2) NL"
      using r [of "i + j"] by (simp add: True replicate_add)
    then have "strip (sub_nl3 Z) = []" unfolding Z by simp
    with True show ?thesis by (simp add: X_def [symmetric])
  next
    case False
    have f: "strip X = X" by (simp add: X_def)
    with False have h: "\<not> isspace (hd X)" and l: "\<not> isspace (last X)"
      by (simp_all add: strip_fixed_iff)
    from h have "hd X \<noteq> NL" by auto
    with False have "lead (X @ replicate j NL) = 0"
      by (cases X) auto
    from sub_nl3_replicate [OF this, of i]
    have 1: "sub_nl3 (replicate i NL @ X @ replicate j NL)
          = replicate (min i 2) NL @ sub_nl3 (X @ replicate j NL)" .
    have "last X \<noteq> NL" using l by auto
    from sub_nl3_append_last [OF False this, of "replicate j NL"]
    have 2: "sub_nl3 (X @ replicate j NL) = sub_nl3 X @ replicate (min j 2) NL"
      by (simp add: r)
    have "strip (sub_nl3 Z) = strip (sub_nl3 X @ replicate (min j 2) NL)"
      unfolding Z 1 2 by (rule strip_lpad [OF sp])
    also have "\<dots> = strip (sub_nl3 X)" by (rule strip_rpad [OF sp])
    also have "\<dots> = sub_nl3 X" by (rule strip_sub_nl3_fixed [OF f])
    finally show ?thesis by (simp add: X_def)
  qed
qed

lemma blank_run_between:
  assumes "lines_ok A" and "lines_ok B" and "strip A \<noteq> []" and "strip B \<noteq> []" and "2 \<le> n"
  shows "sub_nl3 (strip (A @ replicate n NL @ B)) = sub_nl3 (strip A) @ [NL, NL] @ sub_nl3 (strip B)"
proof -
  define X where "X = strip A"
  define Y where "Y = strip B"
  from lines_ok_shape [OF assms(1)] obtain i i' where
    A: "A = replicate i NL @ X @ replicate i' NL" unfolding X_def by blast
  from lines_ok_shape [OF assms(2)] obtain j j' where
    B: "B = replicate j NL @ Y @ replicate j' NL" unfolding Y_def by blast
  define q where "q = i' + n + j"
  have sp: "\<forall>c\<in>set (replicate k NL). isspace c" for k by simp
  have ne: "X \<noteq> []" "Y \<noteq> []" using assms(3,4) by (simp_all add: X_def Y_def)
  have "strip X = X" "strip Y = Y" by (simp_all add: X_def Y_def)
  with ne have hx: "\<not> isspace (hd X)" and lx: "\<not> isspace (last X)"
    and hy: "\<not> isspace (hd Y)" and ly: "\<not> isspace (last Y)"
    by (simp_all add: strip_fixed_iff)
  have e: "A @ replicate n NL @ B = replicate i NL @ ((X @ replicate q NL @ Y) @ replicate j' NL)"
    unfolding A B q_def by (simp add: replicate_add)
  have "strip (A @ replicate n NL @ B) = strip ((X @ replicate q NL @ Y) @ replicate j' NL)"
    unfolding e by (rule strip_lpad [OF sp])
  also have "\<dots> = strip (X @ replicate q NL @ Y)" by (rule strip_rpad [OF sp])
  also have "\<dots> = X @ replicate q NL @ Y"
    using ne hx ly by (simp add: strip_fixed_iff)
  finally have s: "strip (A @ replicate n NL @ B) = X @ replicate q NL @ Y" .
  have "last X \<noteq> NL" using lx by auto
  from sub_nl3_append_last [OF ne(1) this]
  have 1: "sub_nl3 (X @ replicate q NL @ Y) = sub_nl3 X @ sub_nl3 (replicate q NL @ Y)" .
  have "hd Y \<noteq> NL" using hy by auto
  with ne have "lead Y = 0" by (cases Y) auto
  then have "sub_nl3 (replicate q NL @ Y) = replicate (min q 2) NL @ sub_nl3 Y"
    by (rule sub_nl3_replicate)
  moreover have "min q 2 = 2" using assms(5) by (simp add: q_def)
  moreover have "replicate 2 NL = [NL, NL]" by (simp add: numeral_2_eq_2)
  ultimately have 2: "sub_nl3 (replicate q NL @ Y) = [NL, NL] @ sub_nl3 Y"
    by (simp only:)
  show ?thesis unfolding s 1 2 by (simp add: X_def Y_def)
qed

subsection \<open>The first three steps at the ends of a text\<close>

lemma crnl_append:
  "\<not> (p \<noteq> [] \<and> last p = CR \<and> q \<noteq> [] \<and> hd q = NL) \<Longrightarrow>
   str_replace [CR, NL] [NL] (p @ q) = str_replace [CR, NL] [NL] p @ str_replace [CR, NL] [NL] q"
proof (induction p rule: length_induct)
  case (1 p)
  show ?case
  proof (cases p)
    case Nil
    then show ?thesis by (simp add: str_replace.simps [of _ _ "[]"])
  next
    case (Cons c cs)
    show ?thesis
    proof (cases "prefix [CR, NL] p")
      case True
      then obtain r where p: "p = CR # NL # r" by (auto simp: prefix_def)
      have "length r < length p" using p by simp
      moreover have "\<not> (r \<noteq> [] \<and> last r = CR \<and> q \<noteq> [] \<and> hd q = NL)"
        using 1(2) p by auto
      ultimately have ih: "str_replace [CR, NL] [NL] (r @ q)
          = str_replace [CR, NL] [NL] r @ str_replace [CR, NL] [NL] q"
        using 1(1) by blast
      have "str_replace [CR, NL] [NL] (CR # NL # r @ q) = NL # str_replace [CR, NL] [NL] (r @ q)"
        by (subst str_replace.simps) simp
      moreover have "str_replace [CR, NL] [NL] (CR # NL # r) = NL # str_replace [CR, NL] [NL] r"
        by (subst str_replace.simps) simp
      ultimately show ?thesis using ih p by simp
    next
      case False
      have np: "\<not> prefix [CR, NL] (c # cs @ q)"
      proof (cases cs)
        case Nil
        with 1(2) Cons show ?thesis by (cases q) auto
      next
        case (Cons d ds)
        with False \<open>p = c # cs\<close> show ?thesis by auto
      qed
      have "length cs < length p" using Cons by simp
      moreover have "\<not> (cs \<noteq> [] \<and> last cs = CR \<and> q \<noteq> [] \<and> hd q = NL)"
        using 1(2) Cons by auto
      ultimately have ih: "str_replace [CR, NL] [NL] (cs @ q)
          = str_replace [CR, NL] [NL] cs @ str_replace [CR, NL] [NL] q"
        using 1(1) by blast
      have "str_replace [CR, NL] [NL] (c # cs @ q) = c # str_replace [CR, NL] [NL] (cs @ q)"
        using np by (subst str_replace.simps) simp
      moreover have "str_replace [CR, NL] [NL] (c # cs) = c # str_replace [CR, NL] [NL] cs"
        using False Cons by (subst str_replace.simps) simp
      ultimately show ?thesis using ih Cons by simp
    qed
  qed
qed

lemma crnl_single: "str_replace [CR, NL] [NL] [c] = [c]"
  by (subst str_replace.simps) (simp add: str_replace.simps [of _ _ "[]"])

lemma crnl_pair: "str_replace [CR, NL] [NL] [CR, NL] = [NL]"
  by (subst str_replace.simps) (simp add: str_replace.simps [of _ _ "[]"])

lemma crnl_Cons:
  "\<not> (c = CR \<and> s \<noteq> [] \<and> hd s = NL) \<Longrightarrow>
   str_replace [CR, NL] [NL] (c # s) = c # str_replace [CR, NL] [NL] s"
  using crnl_append [of "[c]" s] by (simp add: crnl_single)

lemma crnl_snoc:
  "c \<noteq> NL \<Longrightarrow> str_replace [CR, NL] [NL] (s @ [c]) = str_replace [CR, NL] [NL] s @ [c]"
  using crnl_append [of s "[c]"] by (simp add: crnl_single)

lemma unify_nl_Cons:
  "\<not> (c = CR \<and> s \<noteq> [] \<and> hd s = NL) \<Longrightarrow>
   unify_nl (c # s) = (if c = CR then NL else c) # unify_nl s"
  by (simp add: unify_nl_def crnl_Cons str_replace_single)

lemma unify_nl_snoc:
  "c \<noteq> NL \<Longrightarrow> unify_nl (s @ [c]) = unify_nl s @ [if c = CR then NL else c]"
  by (simp add: unify_nl_def crnl_snoc str_replace_single)

lemma punct_char_space: "isspace c \<Longrightarrow> isspace (punct_char c)"
  by (auto simp: punct_char_def isspace_def)

lemma punct_char_eq_NL [simp]: "punct_char c = NL \<longleftrightarrow> c = NL"
  by (simp add: punct_char_def)

lemma punct_char_eq_CR [simp]: "punct_char c = CR \<longleftrightarrow> c = CR"
  by (simp add: punct_char_def)

lemma punct_char_CR [simp]: "punct_char CR = CR"
  by simp

lemma strip_lines_Nil [simp]: "strip_lines [] = []"
  by (simp add: strip_lines_def)

lemma strip_lines_NL_Cons: "strip_lines (NL # u) = NL # strip_lines u"
  using strip_lines_sep [of "[]" u] by simp

lemma strip_lines_snoc_NL: "strip_lines (u @ [NL]) = strip_lines u @ [NL]"
  using strip_lines_sep [of u "[]"] by simp

lemma strip_lines_space_Cons:
  assumes "isspace c" and "c \<noteq> NL"
  shows "strip_lines (c # u) = strip_lines u"
proof -
  obtain l ls where sp: "split_on NL u = l # ls" by (cases "split_on NL u") auto
  have "strip (c # l) = strip l"
    using strip_lpad [of "[c]" l] assms(1) by simp
  with assms(2) sp show ?thesis by (simp add: strip_lines_def)
qed

lemma strip_lines_snoc_space:
  assumes "isspace c" and "c \<noteq> NL"
  shows "strip_lines (u @ [c]) = strip_lines u"
proof -
  let ?ls = "split_on NL u"
  have st: "strip (last ?ls @ [c]) = strip (last ?ls)"
    using strip_rpad [of "[c]" "last ?ls"] assms(1) by simp
  have id: "butlast ?ls @ [last ?ls] = ?ls" by simp
  have "map strip (butlast ?ls @ [last ?ls @ [c]]) = map strip (butlast ?ls @ [last ?ls])"
    by (simp only: map_append list.map st)
  also have "\<dots> = map strip ?ls" by (simp only: id)
  finally have m: "map strip (butlast ?ls @ [last ?ls @ [c]]) = map strip ?ls" .
  have sp: "split_on NL (u @ [c]) = butlast ?ls @ [last ?ls @ [c]]"
    using assms(2) by (rule split_on_snoc_other)
  show ?thesis unfolding strip_lines_def sp m ..
qed

lemma first_steps_Nil [simp]: "first_steps [] = []"
  by (simp add: first_steps_def unify_nl_def punct_map str_replace.simps [of _ _ "[]"])

lemma first_steps_Cons_space:
  assumes "isspace c"
  shows "first_steps (c # s) = first_steps s \<or> first_steps (c # s) = NL # first_steps s"
proof -
  let ?ps = "map punct_char s"
  consider "c = NL" | "c = CR" "s \<noteq> []" "hd s = NL" | "c = CR" "\<not> (s \<noteq> [] \<and> hd s = NL)"
    | "c \<noteq> NL" "c \<noteq> CR"
    by blast
  then show ?thesis
  proof cases
    case 1
    then have "first_steps (c # s) = NL # first_steps s"
      by (simp add: first_steps_def punct_map punct_char_NL unify_nl_Cons strip_lines_NL_Cons)
    then show ?thesis ..
  next
    case 2
    then obtain r where s: "s = NL # r" by (cases s) auto
    have "str_replace [CR, NL] [NL] (CR # NL # map punct_char r)
          = NL # str_replace [CR, NL] [NL] (map punct_char r)"
      by (subst str_replace.simps) simp
    moreover have "str_replace [CR, NL] [NL] (NL # map punct_char r)
          = NL # str_replace [CR, NL] [NL] (map punct_char r)"
      by (rule crnl_Cons) simp
    ultimately have "unify_nl (punct (c # s)) = unify_nl (punct s)"
      using 2(1) s by (simp add: unify_nl_def punct_map punct_char_NL)
    then show ?thesis by (simp add: first_steps_def)
  next
    case 3
    then have "\<not> (punct_char c = CR \<and> ?ps \<noteq> [] \<and> hd ?ps = NL)"
      by (cases s) auto
    then have "unify_nl (punct (c # s)) = NL # unify_nl (punct s)"
      using 3(1) by (simp add: punct_map unify_nl_Cons)
    then have "first_steps (c # s) = NL # first_steps s"
      by (simp add: first_steps_def strip_lines_NL_Cons)
    then show ?thesis ..
  next
    case 4
    then have "unify_nl (punct (c # s)) = punct_char c # unify_nl (punct s)"
      by (simp add: punct_map unify_nl_Cons)
    moreover have "isspace (punct_char c)" "punct_char c \<noteq> NL"
      using assms 4 by (simp_all add: punct_char_space)
    ultimately show ?thesis
      by (simp add: first_steps_def strip_lines_space_Cons)
  qed
qed

lemma first_steps_snoc_space:
  assumes "isspace c"
  shows "first_steps (s @ [c]) = first_steps s \<or> first_steps (s @ [c]) = first_steps s @ [NL]"
proof -
  let ?ps = "map punct_char s"
  consider "c = NL" "s \<noteq> []" "last s = CR" | "c = NL" "\<not> (s \<noteq> [] \<and> last s = CR)"
    | "c = CR" | "c \<noteq> NL" "c \<noteq> CR"
    by blast
  then show ?thesis
  proof cases
    case 1
    then obtain r where s: "s = r @ [CR]" by (metis append_butlast_last_id)
    let ?pr = "map punct_char r"
    have "str_replace [CR, NL] [NL] (?pr @ [CR, NL]) = str_replace [CR, NL] [NL] ?pr @ [NL]"
      using crnl_append [of ?pr "[CR, NL]"] by (simp add: crnl_pair)
    moreover have "str_replace [CR, NL] [NL] (?pr @ [CR]) = str_replace [CR, NL] [NL] ?pr @ [CR]"
      by (rule crnl_snoc) simp
    ultimately have "unify_nl (punct (s @ [c])) = unify_nl (punct s)"
      using 1(1) s by (simp add: unify_nl_def punct_map punct_char_NL str_replace_single)
    then show ?thesis by (simp add: first_steps_def)
  next
    case 2
    then have "\<not> (?ps \<noteq> [] \<and> last ?ps = CR \<and> [NL] \<noteq> [] \<and> hd [NL] = NL)"
      by (auto simp: last_map)
    from crnl_append [OF this]
    have "unify_nl (punct (s @ [c])) = unify_nl (punct s) @ [NL]"
      using 2(1) by (simp add: unify_nl_def punct_map punct_char_NL crnl_single str_replace_single)
    then have "first_steps (s @ [c]) = first_steps s @ [NL]"
      by (simp add: first_steps_def strip_lines_snoc_NL)
    then show ?thesis ..
  next
    case 3
    then have "unify_nl (punct (s @ [c])) = unify_nl (punct s) @ [NL]"
      by (simp add: punct_map unify_nl_snoc)
    then have "first_steps (s @ [c]) = first_steps s @ [NL]"
      by (simp add: first_steps_def strip_lines_snoc_NL)
    then show ?thesis ..
  next
    case 4
    then have "unify_nl (punct (s @ [c])) = unify_nl (punct s) @ [punct_char c]"
      by (simp add: punct_map unify_nl_snoc)
    moreover have "isspace (punct_char c)" "punct_char c \<noteq> NL"
      using assms 4 by (simp_all add: punct_char_space)
    ultimately show ?thesis
      by (simp add: first_steps_def strip_lines_snoc_space)
  qed
qed

lemma first_steps_NL_Cons: "first_steps (NL # s) = NL # first_steps s"
  by (simp add: first_steps_def punct_map punct_char_NL unify_nl_Cons strip_lines_NL_Cons)

lemma first_steps_space_prefix:
  "\<forall>c\<in>set m. isspace c \<Longrightarrow> \<exists>k. first_steps (m @ s) = replicate k NL @ first_steps s"
proof (induction m)
  case Nil
  have "first_steps ([] @ s) = replicate 0 NL @ first_steps s" by simp
  then show ?case by blast
next
  case (Cons c m)
  then obtain k where k: "first_steps (m @ s) = replicate k NL @ first_steps s" by auto
  from Cons.prems have "isspace c" by simp
  from first_steps_Cons_space [OF this, of "m @ s"]
  have "first_steps ((c # m) @ s) = replicate k NL @ first_steps s
      \<or> first_steps ((c # m) @ s) = replicate (Suc k) NL @ first_steps s"
    by (simp add: k)
  then show ?case by blast
qed

lemma lines_ok_first_steps: "lines_ok (first_steps s)"
  by (simp add: first_steps_def lines_ok_strip_lines)

lemma normalize_str_strip_first:
  "normalize_str s = sub_nl3 (strip (first_steps s))"
  unfolding normalize_str_alt first_steps_def [symmetric]
  by (rule strip_sub_nl3) (rule lines_ok_first_steps)

lemma normalize_str_snoc_space: "isspace c \<Longrightarrow> normalize_str (s @ [c]) = normalize_str s"
  using first_steps_snoc_space [of c s] strip_rpad [of "[NL]" "first_steps s"]
  by (auto simp: normalize_str_strip_first)

lemma normalize_str_Cons_space: "isspace c \<Longrightarrow> normalize_str (c # s) = normalize_str s"
  using first_steps_Cons_space [of c s] strip_lpad [of "[NL]" "first_steps s"]
  by (auto simp: normalize_str_strip_first)

lemma normalize_str_trailing_space:
  "\<forall>c\<in>set g. isspace c \<Longrightarrow> normalize_str (a @ g) = normalize_str a"
proof (induction g rule: rev_induct)
  case Nil show ?case by simp
next
  case (snoc c g)
  then have "normalize_str ((a @ g) @ [c]) = normalize_str (a @ g)"
    by (intro normalize_str_snoc_space) simp
  with snoc show ?case by simp
qed

lemma normalize_str_leading_space:
  "\<forall>c\<in>set g. isspace c \<Longrightarrow> normalize_str (g @ b) = normalize_str b"
  by (induction g) (simp_all add: normalize_str_Cons_space)

lemma first_steps_sep_strip:
  "\<exists>A. (\<forall>z. first_steps (a @ NL # z) = A @ NL # first_steps z)
       \<and> strip A = strip (first_steps a) \<and> lines_ok A"
proof -
  from first_steps_sep [of a] obtain A where
    A: "\<forall>z. first_steps (a @ NL # z) = A @ NL # first_steps z" by blast
  then have e: "first_steps (a @ [NL]) = A @ [NL]" by (metis first_steps_Nil)
  have "lines_ok (first_steps (a @ [NL]))"
    by (simp add: first_steps_def lines_ok_strip_lines)
  then have "lines_ok A"
    by (simp add: e lines_ok_def split_on_snoc_sep)
  moreover have "strip A = strip (first_steps a)"
    using first_steps_snoc_space [of NL a] strip_rpad [of "[NL]" A] e by auto
  ultimately show ?thesis using A by blast
qed

lemma normalize_str_blank_lines:
  assumes "\<forall>c\<in>set m. isspace c" and "normalize_str a \<noteq> []" and "normalize_str b \<noteq> []"
  shows "normalize_str (a @ NL # m @ NL # b) = normalize_str a @ [NL, NL] @ normalize_str b"
proof -
  from first_steps_sep_strip [of a] obtain A where
    A: "\<forall>z. first_steps (a @ NL # z) = A @ NL # first_steps z"
    and sA: "strip A = strip (first_steps a)" and lA: "lines_ok A" by blast
  from first_steps_space_prefix [OF assms(1), of "NL # b"] obtain k where
    k: "first_steps (m @ NL # b) = replicate k NL @ first_steps (NL # b)" by blast
  let ?B = "first_steps b"
  have "first_steps (a @ NL # m @ NL # b) = A @ NL # replicate k NL @ NL # ?B"
    using A k by (simp add: first_steps_NL_Cons)
  also have "\<dots> = A @ replicate (k + 2) NL @ ?B"
    by (simp add: replicate_append_same)
  finally have f: "first_steps (a @ NL # m @ NL # b) = A @ replicate (k + 2) NL @ ?B" .
  have lB: "lines_ok ?B" by (simp add: first_steps_def lines_ok_strip_lines)
  have na: "normalize_str a = sub_nl3 (strip A)" by (simp add: normalize_str_strip_first sA)
  with assms(2) have neA: "strip A \<noteq> []" by auto
  have nb: "normalize_str b = sub_nl3 (strip ?B)" by (rule normalize_str_strip_first)
  with assms(3) have neB: "strip ?B \<noteq> []" by auto
  have "2 \<le> k + 2" by simp
  from blank_run_between [OF lA lB neA neB this]
  show ?thesis by (simp only: normalize_str_strip_first [of "a @ NL # m @ NL # b"] f na nb)
qed

subsection \<open>Texts with a visible character\<close>

lemma sub_nl3_not_Nil: "X \<noteq> [] \<Longrightarrow> sub_nl3 X \<noteq> []"
  by (cases X) (auto simp: sub_nl3_Cons)

lemma punct_char_visible: "\<not> isspace c \<Longrightarrow> \<not> isspace (punct_char c)"
  by (auto simp: punct_char_def isspace_def)

lemma strip_not_Nil:
  assumes "x \<in> set X" and "\<not> isspace x"
  shows "strip X \<noteq> []"
proof -
  let ?D = "dropWhile isspace X"
  have "X = takeWhile isspace X @ ?D" by simp
  then have "x \<in> set (takeWhile isspace X) \<or> x \<in> set ?D"
    using assms(1) by (metis Un_iff set_append)
  moreover have "x \<notin> set (takeWhile isspace X)"
    using assms(2) by (auto dest: set_takeWhileD)
  ultimately have "x \<in> set (rev ?D)" by simp
  with assms(2) have "dropWhile isspace (rev ?D) \<noteq> []"
    by (auto simp: dropWhile_eq_Nil_conv)
  then show ?thesis by (simp add: strip_def)
qed

lemma first_steps_visible_Cons:
  assumes "\<not> isspace c"
  shows "strip (first_steps (c # s)) \<noteq> []"
proof -
  from assms have c: "c \<noteq> NL" "c \<noteq> CR" by (auto simp: isspace_def)
  let ?c = "punct_char c"
  have v: "\<not> isspace ?c" using assms by (rule punct_char_visible)
  have c': "?c \<noteq> NL" using c by simp
  have u: "unify_nl (punct (c # s)) = ?c # unify_nl (punct s)"
    using c by (simp add: punct_map unify_nl_Cons)
  obtain l ls where sp: "split_on NL (unify_nl (punct s)) = l # ls"
    by (cases "split_on NL (unify_nl (punct s))") auto
  have ne: "strip (?c # l) \<noteq> []"
    using v by (intro strip_not_Nil [of ?c]) simp_all
  have "first_steps (c # s) = str_join [NL] (strip (?c # l) # map strip ls)"
    using c' by (simp add: first_steps_def u strip_lines_def sp)
  then obtain r where f: "first_steps (c # s) = strip (?c # l) @ r"
    by (cases "map strip ls") auto
  have "\<not> isspace (hd (strip (?c # l)))"
    using strip_fixed_iff [of "strip (?c # l)"] ne by simp
  moreover from ne have "hd (strip (?c # l)) \<in> set (first_steps (c # s))"
    by (simp add: f)
  ultimately show ?thesis by (intro strip_not_Nil)
qed

lemma normalize_str_empty_iff: "normalize_str a = [] \<longleftrightarrow> (\<forall>c\<in>set a. isspace c)"
proof
  assume "\<forall>c\<in>set a. isspace c"
  from normalize_str_leading_space [OF this, of "[]"]
  show "normalize_str a = []" by (simp add: normalize_str_strip_first)
next
  assume e: "normalize_str a = []"
  show "\<forall>c\<in>set a. isspace c"
  proof (rule ccontr)
    assume "\<not> (\<forall>c\<in>set a. isspace c)"
    then have ne: "dropWhile isspace a \<noteq> []" by (simp add: dropWhile_eq_Nil_conv)
    then obtain c r where d: "dropWhile isspace a = c # r" by (cases "dropWhile isspace a") auto
    with ne have v: "\<not> isspace c" using hd_dropWhile [OF ne] by simp
    have "a = takeWhile isspace a @ c # r" using d by (metis takeWhile_dropWhile_id)
    moreover have "\<forall>x\<in>set (takeWhile isspace a). isspace x" by (auto dest: set_takeWhileD)
    ultimately have "normalize_str a = normalize_str (c # r)"
      using normalize_str_leading_space by metis
    with e have "sub_nl3 (strip (first_steps (c # r))) = []"
      by (simp add: normalize_str_strip_first)
    with first_steps_visible_Cons [OF v, of r] sub_nl3_not_Nil show False by blast
  qed
qed

section \<open>Lemmas about the resolver\<close>

lemma responses_asked [simp]: "responses (asked s url) = responses s"
  by (simp add: asked_def)

lemma fetch_html_asked: "fetch_html s url = (responses s url, asked s url)"
  by (simp add: fetch_html_def asked_def)

lemma fetch_lyrics_staged:
  "fetch_lyrics_from_alkitab soup s bk no =
     (case base_attempt soup s (build_alkitab_url bk no) [] of
        (Inr result, warns1, s1) \<Rightarrow> (Inr result, s1)
      | (Inl e, warns1, s1) \<Rightarrow>
          (case base_handler e warns1 of
             Inl e' \<Rightarrow> (Inl e', s1)
           | Inr warns2 \<Rightarrow> alt_stage soup s1 (build_alkitab_url bk no @ ustr ''A'') warns2))"
  unfolding fetch_lyrics_from_alkitab_def alt_stage_def Let_def by (rule refl)

lemma fetch_lyrics_nkb24_staged:
  "fetch_lyrics_from_alkitab_nkb24 soup s bk no =
     (case base_attempt_nkb24 soup s (build_alkitab_url bk no) [] of
        (Inr result, warns1, s1) \<Rightarrow> (Inr result, s1)
      | (Inl e, warns1, s1) \<Rightarrow>
          (case base_handler_nkb24 e warns1 of
             Inl e' \<Rightarrow> (Inl e', s1)
           | Inr warns2 \<Rightarrow> alt_stage_nkb24 soup s1 (build_alkitab_url bk no @ ustr ''A'') warns2))"
  unfolding fetch_lyrics_from_alkitab_nkb24_def alt_stage_nkb24_def Let_def by (rule refl)

text \<open>The first stage, by the answer at the base address.\<close>

lemma base_attempt_failure:
  "responses s u = Inl e \<Longrightarrow> base_attempt soup s u ws = (Inl e, ws, asked s u)"
  by (simp add: base_attempt_def fetch_html_asked)

lemma base_attempt_marker:
  "responses s u = Inr html \<Longrightarrow> page_says_no_such_song html \<Longrightarrow>
   base_attempt soup s u ws =
     (Inl (OtherException (ustr ''no such song (base)'')),
      ws @ [ustr ''alkitab.app responded 'no such song' (base); retry with 'A' suffix.''],
      asked s u)"
  by (simp add: base_attempt_def fetch_html_asked)

lemma base_attempt_page:
  "responses s u = Inr html \<Longrightarrow> \<not> page_says_no_such_song html \<Longrightarrow>
   \<exists>ws'. base_attempt soup s u ws = (Inr (parse_alkitab_page soup html, u, ws @ ws'), ws @ ws', asked s u)
     \<and> (no_blocks (parse_alkitab_page soup html) \<or> all_parts_empty (parse_alkitab_page soup html)
          \<longleftrightarrow> ws' \<noteq> [])
     \<and> length ws' \<le> 1"
  by (simp add: base_attempt_def fetch_html_asked Let_def)

lemma base_attempt_nkb24_failure:
  "responses s u = Inl e \<Longrightarrow> base_attempt_nkb24 soup s u ws = (Inl e, ws, asked s u)"
  by (simp add: base_attempt_nkb24_def fetch_html_asked)

lemma base_attempt_nkb24_marker:
  "responses s u = Inr html \<Longrightarrow> page_says_no_such_song html \<Longrightarrow>
   base_attempt_nkb24 soup s u ws =
     (Inl (OtherException (ustr ''no such song'')),
      ws @ [ustr ''alkitab.app says 'no such song' (base); will try 'A'.''],
      asked s u)"
  by (simp add: base_attempt_nkb24_def fetch_html_asked)

lemma base_attempt_nkb24_page:
  "responses s u = Inr html \<Longrightarrow> \<not> page_says_no_such_song html \<Longrightarrow>
   \<exists>ws'. base_attempt_nkb24 soup s u ws = (Inr (parse_alkitab_page soup html, u, ws @ ws'), ws @ ws', asked s u)
     \<and> (no_blocks (parse_alkitab_page soup html) \<or> all_parts_empty (parse_alkitab_page soup html)
          \<longleftrightarrow> ws' \<noteq> [])
     \<and> length ws' \<le> 1"
  by (simp add: base_attempt_nkb24_def fetch_html_asked Let_def)

text \<open>The resolver's own signal is taken by the second handler without a warning.\<close>

lemma own_signal_contains:
  "contains (ustr ''no such song'') (str_lower (ustr ''no such song (base)''))"
  "contains (ustr ''no such song'') (str_lower (ustr ''no such song''))"
  by (simp_all add: ustr_def str_lower_def)

lemma base_handler_own_signal:
  "base_handler (OtherException (ustr ''no such song (base)'')) ws = Inr ws"
  by (simp add: base_handler_def own_signal_contains)

lemma base_handler_nkb24_own_signal:
  "base_handler_nkb24 (OtherException (ustr ''no such song'')) ws = Inr ws"
  by (simp add: base_handler_nkb24_def own_signal_contains)

text \<open>The second stage.\<close>

lemma alt_stage_failure:
  "responses s u = Inl e \<Longrightarrow>
   alt_stage soup s u ws =
     (case alt_handler e ws of Inl e' \<Rightarrow> (Inl e', asked s u) | Inr ws4 \<Rightarrow> (Inr (None, u, ws4), asked s u))"
  by (simp add: alt_stage_def alt_attempt_def fetch_html_asked)

lemma alt_stage_marker:
  "responses s u = Inr html \<Longrightarrow> page_says_no_such_song html \<Longrightarrow>
   alt_stage soup s u ws =
     (Inr (None, u, ws @ [ustr ''alkitab.app responded 'no such song' (A variant).'']), asked s u)"
  by (simp add: alt_stage_def alt_attempt_def fetch_html_asked Let_def)

lemma alt_stage_page:
  "responses s u = Inr html \<Longrightarrow> \<not> page_says_no_such_song html \<Longrightarrow>
   \<exists>ws'. alt_stage soup s u ws =
       (Inr (parse_alkitab_page soup html, u, ws @ ws' @ [ustr ''used 'A' suffix fallback.'']), asked s u)
     \<and> (no_blocks (parse_alkitab_page soup html) \<or> all_parts_empty (parse_alkitab_page soup html)
          \<longleftrightarrow> ws' \<noteq> [])"
  by (simp add: alt_stage_def alt_attempt_def fetch_html_asked Let_def)

lemma alt_stage_nkb24_failure:
  "responses s u = Inl e \<Longrightarrow>
   alt_stage_nkb24 soup s u ws =
     (case alt_handler_nkb24 e ws of Inl e' \<Rightarrow> (Inl e', asked s u)
      | Inr ws4 \<Rightarrow> (Inr (None, u, ws4), asked s u))"
  by (simp add: alt_stage_nkb24_def alt_attempt_nkb24_def fetch_html_asked)

lemma alt_stage_nkb24_marker:
  "responses s u = Inr html \<Longrightarrow> page_says_no_such_song html \<Longrightarrow>
   alt_stage_nkb24 soup s u ws =
     (Inr (None, u, ws @ [ustr ''alkitab.app says 'no such song' (A).'']), asked s u)"
  by (simp add: alt_stage_nkb24_def alt_attempt_nkb24_def fetch_html_asked Let_def)

lemma alt_stage_nkb24_page:
  "responses s u = Inr html \<Longrightarrow> \<not> page_says_no_such_song html \<Longrightarrow>
   \<exists>ws'. alt_stage_nkb24 soup s u ws =
       (Inr (parse_alkitab_page soup html, u, ws @ ws' @ [ustr ''used 'A' suffix fallback.'']), asked s u)
     \<and> (no_blocks (parse_alkitab_page soup html) \<or> all_parts_empty (parse_alkitab_page soup html)
          \<longleftrightarrow> ws' \<noteq> [])"
  by (simp add: alt_stage_nkb24_def alt_attempt_nkb24_def fetch_html_asked Let_def)

lemma alt_stage_warns:
  assumes "fst (alt_stage soup s u ws) = Inr (b, url, w)"
  shows "\<exists>ws'. w = ws @ ws' \<and> ws' \<noteq> [] \<and> url = u"
proof (cases "responses s u")
  case (Inl e)
  with assms show ?thesis
    by (cases e) (auto simp: alt_stage_failure alt_handler_def)
next
  case (Inr html)
  show ?thesis
  proof (cases "page_says_no_such_song html")
    case True
    with Inr assms show ?thesis by (auto simp: alt_stage_marker)
  next
    case False
    from alt_stage_page [OF Inr False, of soup ws] assms show ?thesis by auto
  qed
qed

lemma alt_stage_nkb24_warns:
  assumes "fst (alt_stage_nkb24 soup s u ws) = Inr (b, url, w)"
  shows "\<exists>ws'. w = ws @ ws' \<and> ws' \<noteq> [] \<and> url = u"
proof (cases "responses s u")
  case (Inl e)
  with assms show ?thesis
    by (cases e) (auto simp: alt_stage_nkb24_failure alt_handler_nkb24_def)
next
  case (Inr html)
  show ?thesis
  proof (cases "page_says_no_such_song html")
    case True
    with Inr assms show ?thesis by (auto simp: alt_stage_nkb24_marker)
  next
    case False
    from alt_stage_nkb24_page [OF Inr False, of soup ws] assms show ?thesis by auto
  qed
qed

lemma absent_has_warning_kj:
  assumes "fst (fetch_lyrics_from_alkitab soup s bk no) = Inr (None, url, warns)"
  shows "warns \<noteq> []"
proof (cases "responses s (build_alkitab_url bk no)")
  case (Inl e)
  show ?thesis
  proof (cases "base_handler e []")
    case (Inl e')
    with \<open>responses s (build_alkitab_url bk no) = Inl e\<close> assms show ?thesis
      by (simp add: fetch_lyrics_staged base_attempt_failure)
  next
    case (Inr ws2)
    with \<open>responses s (build_alkitab_url bk no) = Inl e\<close> assms
    have "fst (alt_stage soup (asked s (build_alkitab_url bk no))
                 (build_alkitab_url bk no @ ustr ''A'') ws2) = Inr (None, url, warns)"
      by (simp add: fetch_lyrics_staged base_attempt_failure)
    from alt_stage_warns [OF this] show ?thesis by auto
  qed
next
  case (Inr html)
  show ?thesis
  proof (cases "page_says_no_such_song html")
    case True
    with Inr assms
    have "fst (alt_stage soup (asked s (build_alkitab_url bk no))
                 (build_alkitab_url bk no @ ustr ''A'')
                 [ustr ''alkitab.app responded 'no such song' (base); retry with 'A' suffix.''])
          = Inr (None, url, warns)"
      by (simp add: fetch_lyrics_staged base_attempt_marker base_handler_own_signal)
    from alt_stage_warns [OF this] show ?thesis by auto
  next
    case False
    from base_attempt_page [OF Inr False, of soup "[]"] assms show ?thesis
      by (auto simp: fetch_lyrics_staged no_blocks_def)
  qed
qed

lemma absent_has_warning_nkb24:
  assumes "fst (fetch_lyrics_from_alkitab_nkb24 soup s bk no) = Inr (None, url, warns)"
  shows "warns \<noteq> []"
proof (cases "responses s (build_alkitab_url bk no)")
  case (Inl e)
  show ?thesis
  proof (cases "base_handler_nkb24 e []")
    case (Inl e')
    with \<open>responses s (build_alkitab_url bk no) = Inl e\<close> assms show ?thesis
      by (simp add: fetch_lyrics_nkb24_staged base_attempt_nkb24_failure)
  next
    case (Inr ws2)
    with \<open>responses s (build_alkitab_url bk no) = Inl e\<close> assms
    have "fst (alt_stage_nkb24 soup (asked s (build_alkitab_url bk no))
                 (build_alkitab_url bk no @ ustr ''A'') ws2) = Inr (None, url, warns)"
      by (simp add: fetch_lyrics_nkb24_staged base_attempt_nkb24_failure)
    from alt_stage_nkb24_warns [OF this] show ?thesis by auto
  qed
next
  case (Inr html)
  show ?thesis
  proof (cases "page_says_no_such_song html")
    case True
    with Inr assms
    have "fst (alt_stage_nkb24 soup (asked s (build_alkitab_url bk no))
                 (build_alkitab_url bk no @ ustr ''A'')
                 [ustr ''alkitab.app says 'no such song' (base); will try 'A'.''])
          = Inr (None, url, warns)"
      by (simp add: fetch_lyrics_nkb24_staged base_attempt_nkb24_marker base_handler_nkb24_own_signal)
    from alt_stage_nkb24_warns [OF this] show ?thesis by auto
  next
    case False
    from base_attempt_nkb24_page [OF Inr False, of soup "[]"] assms show ?thesis
      by (auto simp: fetch_lyrics_nkb24_staged no_blocks_def)
  qed
qed

text \<open>What the second stage returns when the fetch of the alternate address fails.\<close>

lemma alt_stage_http_failure:
  "responses s u = Inl (HTTPError r m) \<Longrightarrow>
   alt_stage soup s u ws =
     (Inr (None, u, ws @ [ustr ''alkitab.app fetch failed (A variant): HTTP '' @ status_text r]),
      asked s u)"
  by (simp add: alt_stage_failure alt_handler_def)

lemma alt_stage_other_failure:
  "responses s u = Inl (OtherException m) \<Longrightarrow>
   alt_stage soup s u ws =
     (Inr (None, u, ws @ [ustr ''alkitab.app parse error (A variant): '' @ m]), asked s u)"
  by (simp add: alt_stage_failure alt_handler_def)

lemma alt_stage_nkb24_exception:
  "responses s u = Inl e \<Longrightarrow> e \<noteq> KeyboardInterrupt \<Longrightarrow>
   alt_stage_nkb24 soup s u ws =
     (Inr (None, u, ws @ [ustr ''A-suffix fetch/parse error: '' @ exn_text e]), asked s u)"
  by (cases e) (simp_all add: alt_stage_nkb24_failure alt_handler_nkb24_def)

lemma alt_stage_returns:
  assumes "responses s u \<noteq> Inl KeyboardInterrupt"
  shows "\<exists>b ws'. fst (alt_stage soup s u ws) = Inr (b, u, ws @ ws')
     \<and> (\<forall>r m. responses s u = Inl (HTTPError r m) \<longrightarrow>
           b = None \<and> ustr ''alkitab.app fetch failed (A variant): HTTP '' @ status_text r \<in> set ws')
     \<and> (\<forall>m. responses s u = Inl (OtherException m) \<longrightarrow>
           b = None \<and> ustr ''alkitab.app parse error (A variant): '' @ m \<in> set ws')"
proof (cases "responses s u")
  case (Inl e)
  with assms show ?thesis
    by (cases e) (simp_all add: alt_stage_http_failure alt_stage_other_failure)
next
  case (Inr html)
  show ?thesis
  proof (cases "page_says_no_such_song html")
    case True
    with Inr show ?thesis by (simp add: alt_stage_marker)
  next
    case False
    from alt_stage_page [OF Inr False, of soup ws] Inr show ?thesis by auto
  qed
qed

lemma alt_stage_nkb24_returns:
  assumes "responses s u \<noteq> Inl KeyboardInterrupt"
  shows "\<exists>b ws'. fst (alt_stage_nkb24 soup s u ws) = Inr (b, u, ws @ ws')
     \<and> (\<forall>e. responses s u = Inl e \<longrightarrow>
           b = None \<and> ustr ''A-suffix fetch/parse error: '' @ exn_text e \<in> set ws')"
proof (cases "responses s u")
  case (Inl e)
  with assms have "e \<noteq> KeyboardInterrupt" by auto
  from alt_stage_nkb24_exception [OF Inl this] Inl show ?thesis by simp
next
  case (Inr html)
  show ?thesis
  proof (cases "page_says_no_such_song html")
    case True
    with Inr show ?thesis by (simp add: alt_stage_nkb24_marker)
  next
    case False
    from alt_stage_nkb24_page [OF Inr False, of soup ws] Inr show ?thesis by auto
  qed
qed

lemma failures_caught_kj:
  assumes "responses s (build_alkitab_url bk no) \<noteq> Inl KeyboardInterrupt"
    and "responses s (build_alkitab_url bk no @ ustr ''A'') \<noteq> Inl KeyboardInterrupt"
  shows "\<exists>blocks url warns.
     fst (fetch_lyrics_from_alkitab soup s bk no) = Inr (blocks, url, warns)
     \<and> (\<forall>r m. responses s (build_alkitab_url bk no) = Inl (HTTPError r m) \<longrightarrow>
           (if status_text r = ustr ''404''
            then ustr ''HTTP 404 at alkitab.app (base); retry with 'A' suffix.''
            else ustr ''alkitab.app fetch failed (base): HTTP '' @ status_text r) \<in> set warns)
     \<and> (\<forall>m. responses s (build_alkitab_url bk no) = Inl (OtherException m)
             \<and> \<not> contains (ustr ''no such song'') (str_lower m) \<longrightarrow>
           ustr ''alkitab.app parse error (base): '' @ m \<in> set warns)
     \<and> (\<forall>r m. (\<forall>h. responses s (build_alkitab_url bk no) = Inr h \<longrightarrow> page_says_no_such_song h)
             \<and> responses s (build_alkitab_url bk no @ ustr ''A'') = Inl (HTTPError r m) \<longrightarrow>
           blocks = None \<and> url = build_alkitab_url bk no @ ustr ''A''
           \<and> ustr ''alkitab.app fetch failed (A variant): HTTP '' @ status_text r \<in> set warns)
     \<and> (\<forall>m. (\<forall>h. responses s (build_alkitab_url bk no) = Inr h \<longrightarrow> page_says_no_such_song h)
             \<and> responses s (build_alkitab_url bk no @ ustr ''A'') = Inl (OtherException m) \<longrightarrow>
           blocks = None \<and> url = build_alkitab_url bk no @ ustr ''A'' \<and> ustr ''alkitab.app parse error (A variant): '' @ m \<in> set warns)"
proof -
  let ?u = "build_alkitab_url bk no"
  let ?a = "?u @ ustr ''A''"
  have ra: "responses (asked s ?u) ?a \<noteq> Inl KeyboardInterrupt" using assms(2) by simp
  note alt = alt_stage_returns [OF ra, of soup]
  show ?thesis
  proof (cases "responses s ?u")
    case (Inl e)
    show ?thesis
    proof (cases e)
      case (HTTPError r m)
      from alt [of "[if status_text r = ustr ''404''
            then ustr ''HTTP 404 at alkitab.app (base); retry with 'A' suffix.''
            else ustr ''alkitab.app fetch failed (base): HTTP '' @ status_text r]"]
      show ?thesis using Inl HTTPError
        by (auto simp: fetch_lyrics_staged base_attempt_failure base_handler_def)
    next
      case (OtherException m)
      show ?thesis
      proof (cases "contains (ustr ''no such song'') (str_lower m)")
        case True
        from alt [of "[]"] show ?thesis using Inl OtherException True
          by (auto simp: fetch_lyrics_staged base_attempt_failure base_handler_def)
      next
        case False
        from alt [of "[ustr ''alkitab.app parse error (base): '' @ m]"]
        show ?thesis using Inl OtherException False
          by (auto simp: fetch_lyrics_staged base_attempt_failure base_handler_def)
      qed
    next
      case KeyboardInterrupt
      with Inl assms(1) show ?thesis by simp
    qed
  next
    case (Inr html)
    show ?thesis
    proof (cases "page_says_no_such_song html")
      case True
      from alt [of "[ustr ''alkitab.app responded 'no such song' (base); retry with 'A' suffix.'']"]
      show ?thesis using Inr True
        by (auto simp: fetch_lyrics_staged base_attempt_marker base_handler_own_signal)
    next
      case False
      from base_attempt_page [OF Inr False, of soup "[]"] show ?thesis using Inr False
        by (auto simp: fetch_lyrics_staged)
    qed
  qed
qed

lemma failures_caught_nkb24:
  assumes "responses s (build_alkitab_url bk no) \<noteq> Inl KeyboardInterrupt"
    and "responses s (build_alkitab_url bk no @ ustr ''A'') \<noteq> Inl KeyboardInterrupt"
  shows "\<exists>blocks url warns.
     fst (fetch_lyrics_from_alkitab_nkb24 soup s bk no) = Inr (blocks, url, warns)
     \<and> (\<forall>r m. responses s (build_alkitab_url bk no) = Inl (HTTPError r m) \<longrightarrow>
           (if status_text_nkb24 r = ustr ''404''
            then ustr ''HTTP 404 (base); will try 'A'.''
            else ustr ''HTTP '' @ status_text_nkb24 r @ ustr '' (base)'') \<in> set warns)
     \<and> (\<forall>m. responses s (build_alkitab_url bk no) = Inl (OtherException m)
             \<and> \<not> contains (ustr ''no such song'') (str_lower m) \<longrightarrow>
           ustr ''parse error (base): '' @ m \<in> set warns)
     \<and> (\<forall>e. (\<forall>h. responses s (build_alkitab_url bk no) = Inr h \<longrightarrow> page_says_no_such_song h)
             \<and> responses s (build_alkitab_url bk no @ ustr ''A'') = Inl e \<longrightarrow>
           blocks = None \<and> url = build_alkitab_url bk no @ ustr ''A'' \<and> ustr ''A-suffix fetch/parse error: '' @ exn_text e \<in> set warns)"
proof -
  let ?u = "build_alkitab_url bk no"
  let ?a = "?u @ ustr ''A''"
  have ra: "responses (asked s ?u) ?a \<noteq> Inl KeyboardInterrupt" using assms(2) by simp
  note alt = alt_stage_nkb24_returns [OF ra, of soup]
  show ?thesis
  proof (cases "responses s ?u")
    case (Inl e)
    show ?thesis
    proof (cases e)
      case (HTTPError r m)
      from alt [of "[if status_text_nkb24 r = ustr ''404''
            then ustr ''HTTP 404 (base); will try 'A'.''
            else ustr ''HTTP '' @ status_text_nkb24 r @ ustr '' (base)'']"]
      show ?thesis using Inl HTTPError
        by (auto simp: fetch_lyrics_nkb24_staged base_attempt_nkb24_failure base_handler_nkb24_def)
    next
      case (OtherException m)
      show ?thesis
      proof (cases "contains (ustr ''no such song'') (str_lower m)")
        case True
        from alt [of "[]"] show ?thesis using Inl OtherException True
          by (auto simp: fetch_lyrics_nkb24_staged base_attempt_nkb24_failure base_handler_nkb24_def)
      next
        case False
        from alt [of "[ustr ''parse error (base): '' @ m]"]
        show ?thesis using Inl OtherException False
          by (auto simp: fetch_lyrics_nkb24_staged base_attempt_nkb24_failure base_handler_nkb24_def)
      qed
    next
      case KeyboardInterrupt
      with Inl assms(1) show ?thesis by simp
    qed
  next
    case (Inr html)
    show ?thesis
    proof (cases "page_says_no_such_song html")
      case True
      from alt [of "[ustr ''alkitab.app says 'no such song' (base); will try 'A'.'']"]
      show ?thesis using Inr True
        by (auto simp: fetch_lyrics_nkb24_staged base_attempt_nkb24_marker
            base_handler_nkb24_own_signal)
    next
      case False
      from base_attempt_nkb24_page [OF Inr False, of soup "[]"] show ?thesis using Inr False
        by (auto simp: fetch_lyrics_nkb24_staged)
    qed
  qed
qed

section \<open>The example inputs, evaluated\<close>

lemma url_nkb_24: "build_alkitab_url (ustr ''NKB'') 24 = ustr ''https://alkitab.app/NKB/24''"
  by (simp add: build_alkitab_url_def str_upper_def str_of_int_def str_of_nat.simps ustr_def)

lemma url_nkb_24A: "ustr ''https://alkitab.app/NKB/24'' @ ustr ''A'' = ustr ''https://alkitab.app/NKB/24A''"
  by (simp add: ustr_def)

lemma example_responses:
  "responses (example_session x y) (ustr ''https://alkitab.app/NKB/24'') = x"
  "responses (example_session x y) (ustr ''https://alkitab.app/NKB/24A'') = y"
  by (simp_all add: example_session_def ustr_def)

lemma marker_pages:
  "page_says_no_such_song page_marker"
  "page_says_no_such_song page_lyrics_marked"
  "\<not> page_says_no_such_song page_lyrics"
  "\<not> page_says_no_such_song page_empty_lagu"
  "\<not> page_says_no_such_song page_plain"
  by (simp_all add: page_says_no_such_song_def page_marker_def page_lyrics_marked_def
      page_lyrics_def page_empty_lagu_def page_plain_def ustr_def str_lower_def)

lemma parse_lyrics_tree:
  assumes "soup html = lyrics_tree line"
    and "normalize_str line = line" and "strip line = line" and "line \<noteq> []"
  shows "parse_alkitab_page soup html = Some (one_verse line)"
  using assms
  by (simp add: parse_alkitab_page_def select_one_def select_def lyrics_tree_def
      parse_alkitab_lirik_blocks_def parse_bait_def text_or_none_def node_classes_def
      get_text_def one_verse_def Let_def ustr_def)

lemma plain_lines:
  "normalize_str (ustr ''Amin'') = ustr ''Amin''"
  "strip (ustr ''Amin'') = ustr ''Amin''"
  "normalize_str (ustr ''No such song'') = ustr ''No such song''"
  "strip (ustr ''No such song'') = ustr ''No such song''"
  by (simp_all add: normalize_str_one_line strip_fixed_iff ustr_def punct_char_def isspace_def)

lemma example_soup_pages:
  "example_soup page_lyrics = lyrics_tree (ustr ''Amin'')"
  "example_soup page_lyrics_marked = lyrics_tree (ustr ''No such song'')"
  "example_soup page_empty_lagu =
     Element (ustr ''[document]'') [] [Element (ustr ''div'') [ustr ''lagu''] []]"
  "example_soup page_plain =
     Element (ustr ''[document]'') [] [Element (ustr ''p'') [] [TextNode (ustr ''Halo'')]]"
  by (simp_all add: example_soup_def page_lyrics_def page_lyrics_marked_def page_empty_lagu_def
      page_plain_def ustr_def)

lemma parse_examples:
  "parse_alkitab_page example_soup page_lyrics = Some (one_verse (ustr ''Amin''))"
  "parse_alkitab_page example_soup page_lyrics_marked = Some (one_verse (ustr ''No such song''))"
  "parse_alkitab_page example_soup page_empty_lagu = Some []"
  "parse_alkitab_page example_soup page_plain = None"
proof -
  show "parse_alkitab_page example_soup page_lyrics = Some (one_verse (ustr ''Amin''))"
    by (rule parse_lyrics_tree [where soup = example_soup and html = page_lyrics,
          OF example_soup_pages(1) plain_lines(1,2)]) (simp add: ustr_def)
  show "parse_alkitab_page example_soup page_lyrics_marked = Some (one_verse (ustr ''No such song''))"
    by (rule parse_lyrics_tree [where soup = example_soup and html = page_lyrics_marked,
          OF example_soup_pages(2) plain_lines(3,4)]) (simp add: ustr_def)
  show "parse_alkitab_page example_soup page_empty_lagu = Some []"
    by (simp add: parse_alkitab_page_def example_soup_pages select_one_def select_def ustr_def)
  show "parse_alkitab_page example_soup page_plain = None"
    by (simp add: parse_alkitab_page_def example_soup_pages select_one_def select_def ustr_def)
qed

lemmas example_facts = url_nkb_24 url_nkb_24A example_responses marker_pages parse_examples

lemma normalize_eval_letter:
  "normalize_str (ustr ''a'') = ustr ''a''" "normalize_str (ustr ''b'') = ustr ''b''"
  by (rule normalize_str_one_line; simp add: strip_fixed_iff ustr_def punct_char_def isspace_def)+

lemma normalize_eval_trailing:
  "normalize_str (ustr ''a'' @ [NL, NL, NL, NL]) = ustr ''a''"
  by (simp add: normalize_str_alt punct_map punct_char_def unify_nl_def str_replace_absent
      strip_lines_def sub_nl3_Cons strip_def isspace_def ustr_def)

lemma title_normal:
  "normalize_str (ustr ''NKB 024, Tuhan Kasihanilah Kami'') = ustr ''NKB 024, Tuhan Kasihanilah Kami''"
  by (rule normalize_str_one_line)
    (simp_all add: strip_fixed_iff ustr_def punct_char_def isspace_def)

lemma split_title_nkb24_comma:
  "split_title_nkb24 (ustr ''NKB 024, Tuhan Kasihanilah Kami'')
     = (Some (ustr ''NKB''), Some 24, Some (ustr ''Tuhan Kasihanilah Kami''))"
proof -
  have "TITLE_RE_STRICT (ustr ''NKB 024, Tuhan Kasihanilah Kami'')
          = Some (ustr ''NKB'', ustr ''24'', ustr ''Tuhan Kasihanilah Kami'')"
    by (simp add: TITLE_RE_STRICT_def match_code_def imatch_def ieq_def tail_group_def
        number_group_def is_separator_def isspace_def isdigit_ascii ustr_def Let_def)
  moreover have "strip (ustr ''Tuhan Kasihanilah Kami'') = ustr ''Tuhan Kasihanilah Kami''"
    by (simp add: strip_fixed_iff ustr_def isspace_def)
  moreover have "str_upper (ustr ''NKB'') = ustr ''NKB''" "int_of_digits (ustr ''24'') = 24"
    "ustr ''Tuhan Kasihanilah Kami'' \<noteq> []"
    by (simp_all add: str_upper_def int_of_digits_def digit_value_ascii ustr_def)
  ultimately show ?thesis
    by (simp add: split_title_nkb24_def title_normal nonempty_def)
qed

lemma split_title_nkb24_bare:
  "split_title_nkb24 (ustr ''NKB 024'') = (Some (ustr ''NKB''), Some 24, None)"
proof -
  have n: "normalize_str (ustr ''NKB 024'') = ustr ''NKB 024''"
    by (rule normalize_str_one_line)
      (simp_all add: strip_fixed_iff ustr_def punct_char_def isspace_def)
  have 1: "TITLE_RE_STRICT (ustr ''NKB 024'') = None"
    by (simp add: TITLE_RE_STRICT_def match_code_def imatch_def ieq_def
        isspace_def isdigit_ascii ustr_def Let_def)
  have 2: "TITLE_RE_FUZZY (ustr ''NKB 024'') = Some (ustr ''NKB'', ustr ''24'', [])"
    by (simp add: fuzzy_at_def match_code_def imatch_def ieq_def number_group_def
        isspace_def isdigit_ascii ustr_def Let_def)
  have 3: "str_upper (ustr ''NKB'') = ustr ''NKB''" "int_of_digits (ustr ''24'') = 24"
    by (simp_all add: str_upper_def int_of_digits_def digit_value_ascii ustr_def)
  show ?thesis
    by (simp add: split_title_nkb24_def n 1 2 3 lstrip_def drop_leading_separator_def
        nonempty_def)
qed

lemma heading_meta_full:
  "heading_meta (ustr ''NKB 024, Tuhan Kasihanilah Kami'') =
     \<lparr>buku = Some (ustr ''NKB''), no_lagu = Some 24,
      judul_text = Some (ustr ''Tuhan Kasihanilah Kami''),
      info = Some (ustr ''do = d''), tune = Some (ustr ''do = d''), beat = None,
      raw_title = ustr ''NKB 024, Tuhan Kasihanilah Kami''\<rparr>"
  by (simp add: heading_meta_def split_title_nkb24_comma)

lemma heading_meta_bare:
  "heading_meta (ustr ''NKB 024'') =
     \<lparr>buku = Some (ustr ''NKB''), no_lagu = Some 24, judul_text = None,
      info = Some (ustr ''do = d''), tune = Some (ustr ''do = d''), beat = None,
      raw_title = ustr ''NKB 024''\<rparr>"
  by (simp add: heading_meta_def split_title_nkb24_bare)

lemma validate_headings:
  "validate (heading_meta (ustr ''NKB 024, Tuhan Kasihanilah Kami'')) (Some (one_verse (ustr ''Amin''))) = []"
  "validate (heading_meta (ustr ''NKB 024'')) (Some (one_verse (ustr ''Amin'')))
     = [ustr ''Missing judul_text'']"
  by (simp_all add: heading_meta_full heading_meta_bare validate_def truthy_def
      no_blocks_def all_parts_empty_def one_verse_def)
     (simp_all add: ustr_def)

lemma saved_row_full:
  "saved_row (ustr ''NKB 024, Tuhan Kasihanilah Kami'') t =
     \<lparr>buku = Some (ustr ''NKB''), no_lagu = Some 24,
      judul_text = Some (ustr ''Tuhan Kasihanilah Kami''),
      info = Some (ustr ''do = d''), tune = Some (ustr ''do = d''), beat = None,
      lirik_json = Some (dumps (JArray (map json_of_block (one_verse (ustr ''Amin''))))),
      source_url = Some SOURCE_URL,
      lyrics_source_url = Some (ustr ''https://alkitab.app/NKB/24''),
      fetched_at = Some (t @ ustr ''Z''),
      warnings = None\<rparr>"
  by (simp add: saved_row_def main_row_def validate_headings or_empty_def del: dumps.simps)
    (simp add: heading_meta_full)

lemma saved_row_bare:
  "saved_row (ustr ''NKB 024'') t =
     \<lparr>buku = Some (ustr ''NKB''), no_lagu = Some 24,
      judul_text = None,
      info = Some (ustr ''do = d''), tune = Some (ustr ''do = d''), beat = None,
      lirik_json = Some (dumps (JArray (map json_of_block (one_verse (ustr ''Amin''))))),
      source_url = Some SOURCE_URL,
      lyrics_source_url = Some (ustr ''https://alkitab.app/NKB/24''),
      fetched_at = Some (t @ ustr ''Z''),
      warnings = Some (ustr ''Missing judul_text'')\<rparr>"
  by (simp add: saved_row_def main_row_def validate_headings or_empty_def del: dumps.simps)
    (simp add: heading_meta_bare)

section \<open>The claims\<close>

lemma do_update_same_key: "same_key r row \<Longrightarrow> do_update r row = row"
  by (cases r, cases row) (simp add: same_key_def do_update_def)

lemma upsert_hymn_ok:
  assumes "bind_error row = None" and "first_null_column row = None"
  shows "\<exists>t'. upsert_hymn table row = Inr t' \<and> row \<in> set t'
          \<and> (\<forall>r\<in>set t'. same_key r row \<longrightarrow> r = row)"
proof (cases "list_ex (\<lambda>r. same_key r row) table")
  case True
  then obtain r where "r \<in> set table" "same_key r row" by (auto simp: list_ex_iff)
  then have "row \<in> set (map (\<lambda>r. if same_key r row then do_update r row else r) table)"
    by (force simp: do_update_same_key)
  with True assms show ?thesis
    by (auto simp: upsert_hymn_def do_update_same_key)
next
  case False
  with assms show ?thesis
    by (auto simp: upsert_hymn_def list_ex_iff)
qed

text \<open>
  Where the database accepts the second of two rows with the same \<open>(buku, no_lagu)\<close>, the
  upsert is a full replace: after \<open>upsert_hymn\<close> with the first row (accepted or refused)
  and then with the second, the table holds the second row, and every row of the table
  with that key is the second row, field by field.
\<close>

lemma upsert_replaces_accepted:
  assumes "same_key r1 r2" and "bind_error r2 = None" and "first_null_column r2 = None"
  shows "\<exists>t2. upsert_hymn (table_after table (upsert_hymn table r1)) r2 = Inr t2
          \<and> r2 \<in> set t2
          \<and> (\<forall>r\<in>set t2. same_key r r2 \<longrightarrow> r = r2)"
  using upsert_hymn_ok [OF assms(2,3)] by blast

text \<open>
  A number outside 64 bits is refused when the parameters are bound, and nothing is stored.
\<close>

lemma upsert_overflow:
  assumes "text_ok (buku row)" and "no_lagu row = Some n" and "2 ^ 63 \<le> n"
  shows "upsert_hymn table row
     = Inl (OverflowError (ustr ''Python int too large to convert to SQLite INTEGER''))"
  using assms by (simp add: upsert_hymn_def bind_error_def int_ok_def)

text \<open>
  A record with a key and no title reaches the database from both scrapers: the validation
  notes the missing title among the warnings, the row is built and handed to
  \<open>upsert_hymn\<close>, and the \<^verbatim>\<open>NOT NULL\<close> column refuses it.
\<close>

lemma title_less_record_refused:
  assumes "judul_text m = None" and "buku m \<noteq> None" and "no_lagu m \<noteq> None"
    and "bind_error (scrape_one_row m url l src lw t) = None"
    and "bind_error (main_row m l src (validate m l @ lw) t) = None"
  shows "ustr ''Missing judul_text'' \<in> set (enforce_required_fields m l)"
    and "process_save table m url l src lw t
           = Inl (IntegrityError (ustr ''NOT NULL constraint failed: hymns.judul_text''))"
    and "ustr ''Missing judul_text'' \<in> set (validate m l)"
    and "main_save table m l src lw t
           = Inl (IntegrityError (ustr ''NOT NULL constraint failed: hymns.judul_text''))"
proof -
  show "ustr ''Missing judul_text'' \<in> set (enforce_required_fields m l)"
    using assms(1) by (simp add: enforce_required_fields_def truthy_def)
  show "ustr ''Missing judul_text'' \<in> set (validate m l)"
    using assms(1) by (simp add: validate_def truthy_def)
  have "first_null_column (scrape_one_row m url l src lw t) = Some (ustr ''judul_text'')"
    using assms(1-3) by (auto simp: first_null_column_def scrape_one_row_def to_db_row_def Let_def)
  then show "process_save table m url l src lw t
           = Inl (IntegrityError (ustr ''NOT NULL constraint failed: hymns.judul_text''))"
    using assms(4) by (simp add: process_save_def upsert_hymn_def) (simp add: ustr_def)
  have "first_null_column (main_row m l src (validate m l @ lw) t) = Some (ustr ''judul_text'')"
    using assms(1-3) by (auto simp: first_null_column_def main_row_def)
  then show "main_save table m l src lw t
           = Inl (IntegrityError (ustr ''NOT NULL constraint failed: hymns.judul_text''))"
    using assms(5) by (simp add: main_save_def upsert_hymn_def Let_def) (simp add: ustr_def)
qed

lemma bind_error_saved_row:
  "bind_error (saved_row (ustr ''NKB 024, Tuhan Kasihanilah Kami'') (ustr ''2025-01-01T00:00:00'')) = None"
  "bind_error (saved_row (ustr ''NKB 024'') (ustr ''2025-06-01T00:00:00'')) = None"
  by (simp_all add: saved_row_full saved_row_bare bind_error_def text_ok_def int_ok_def
      del: dumps.simps)
    (simp_all add: SOURCE_URL_def one_verse_def json_of_block_def json_of_part_def
      json_of_opt_def encode_basestring_def json_escape_def ustr_def)

text \<open>
  Claim C1 says that a second upsert with the same key always leaves the second record's
  values in the table. \<^verbatim>\<open>get_nkb_24.main\<close> saves the song NKB 24 from a page whose heading
  is \<^verbatim>\<open>NKB 024, Tuhan Kasihanilah Kami\<close>. When the heading of the page is later
  \<^verbatim>\<open>NKB 024\<close>, \<open>split_title\<close> gives the same key and no title, \<open>validate\<close> notes
  \<^verbatim>\<open>Missing judul_text\<close> among the warnings of the row, and \<open>main\<close> goes on to save the
  row; the database refuses it for the \<^verbatim>\<open>NOT NULL\<close> column, and the table keeps the first
  record. The row that was meant to be saved with a warning is not saved.
\<close>

theorem upsert_title_less_refused:
  "split_title_nkb24 (ustr ''NKB 024, Tuhan Kasihanilah Kami'')
     = (Some (ustr ''NKB''), Some 24, Some (ustr ''Tuhan Kasihanilah Kami''))
   \<and> split_title_nkb24 (ustr ''NKB 024'') = (Some (ustr ''NKB''), Some 24, None)
   \<and> validate (heading_meta (ustr ''NKB 024'')) (Some (one_verse (ustr ''Amin'')))
     = [ustr ''Missing judul_text'']
   \<and> same_key (saved_row (ustr ''NKB 024, Tuhan Kasihanilah Kami'') (ustr ''2025-01-01T00:00:00''))
        (saved_row (ustr ''NKB 024'') (ustr ''2025-06-01T00:00:00''))
   \<and> main_save [] (heading_meta (ustr ''NKB 024, Tuhan Kasihanilah Kami''))
        (Some (one_verse (ustr ''Amin''))) (Some (ustr ''https://alkitab.app/NKB/24'')) []
        (ustr ''2025-01-01T00:00:00'')
     = Inr [saved_row (ustr ''NKB 024, Tuhan Kasihanilah Kami'') (ustr ''2025-01-01T00:00:00'')]
   \<and> main_save [saved_row (ustr ''NKB 024, Tuhan Kasihanilah Kami'') (ustr ''2025-01-01T00:00:00'')]
        (heading_meta (ustr ''NKB 024''))
        (Some (one_verse (ustr ''Amin''))) (Some (ustr ''https://alkitab.app/NKB/24'')) []
        (ustr ''2025-06-01T00:00:00'')
     = Inl (IntegrityError (ustr ''NOT NULL constraint failed: hymns.judul_text''))
   \<and> table_after [saved_row (ustr ''NKB 024, Tuhan Kasihanilah Kami'') (ustr ''2025-01-01T00:00:00'')]
        (main_save [saved_row (ustr ''NKB 024, Tuhan Kasihanilah Kami'') (ustr ''2025-01-01T00:00:00'')]
           (heading_meta (ustr ''NKB 024''))
           (Some (one_verse (ustr ''Amin''))) (Some (ustr ''https://alkitab.app/NKB/24'')) []
           (ustr ''2025-06-01T00:00:00''))
     = [saved_row (ustr ''NKB 024, Tuhan Kasihanilah Kami'') (ustr ''2025-01-01T00:00:00'')]
   \<and> judul_text (saved_row (ustr ''NKB 024, Tuhan Kasihanilah Kami'') (ustr ''2025-01-01T00:00:00''))
     = Some (ustr ''Tuhan Kasihanilah Kami'')"
proof -
  let ?r1 = "saved_row (ustr ''NKB 024, Tuhan Kasihanilah Kami'') (ustr ''2025-01-01T00:00:00'')"
  let ?r2 = "saved_row (ustr ''NKB 024'') (ustr ''2025-06-01T00:00:00'')"
  let ?lyr = "Some (one_verse (ustr ''Amin''))"
  let ?url = "Some (ustr ''https://alkitab.app/NKB/24'')"
  have v: "validate (heading_meta (ustr ''NKB 024'')) ?lyr = [ustr ''Missing judul_text'']"
    by (rule validate_headings)
  have k: "same_key ?r1 ?r2"
    by (simp add: same_key_def saved_row_full saved_row_bare)
  have s1: "main_save [] (heading_meta (ustr ''NKB 024, Tuhan Kasihanilah Kami'')) ?lyr ?url []
              (ustr ''2025-01-01T00:00:00'') = upsert_hymn [] ?r1"
    and s2: "main_save [?r1] (heading_meta (ustr ''NKB 024'')) ?lyr ?url []
              (ustr ''2025-06-01T00:00:00'') = upsert_hymn [?r1] ?r2"
    by (simp_all add: main_save_def saved_row_def Let_def validate_headings)
  have n1: "first_null_column ?r1 = None"
    and n2: "first_null_column ?r2 = Some (ustr ''judul_text'')"
    by (simp_all add: first_null_column_def saved_row_full saved_row_bare)
  have u1: "upsert_hymn [] ?r1 = Inr [?r1]"
    by (simp add: upsert_hymn_def bind_error_saved_row n1)
  have u2: "upsert_hymn [?r1] ?r2
      = Inl (IntegrityError (ustr ''NOT NULL constraint failed: hymns.judul_text''))"
    by (simp add: upsert_hymn_def bind_error_saved_row n2) (simp add: ustr_def)
  have j: "judul_text ?r1 = Some (ustr ''Tuhan Kasihanilah Kami'')"
    by (simp add: saved_row_full)
  show ?thesis
    by (simp only: split_title_nkb24_comma split_title_nkb24_bare v k s1 s2 u1 u2 j
        table_after_def sum.case simp_thms)
qed

text \<open>
  Claim C2. The text normalizer is idempotent: for every string, present or absent,
  normalizing the result again changes nothing; and an absent input gives an absent
  output. This holds for \<open>normalize_preserve_newlines\<close> and for \<open>normalize\<close>.
\<close>

theorem normalize_idempotent:
  "normalize_preserve_newlines (normalize_preserve_newlines x) = normalize_preserve_newlines x
   \<and> normalize (normalize x) = normalize x
   \<and> normalize_preserve_newlines None = None
   \<and> normalize None = None"
proof (cases x)
  case None
  then show ?thesis by (simp add: normalize_eq normalize_preserve_newlines_def)
next
  case (Some s)
  then show ?thesis
    by (simp add: normalize_eq normalize_preserve_newlines_Some normalize_str_idem)
      (simp add: normalize_preserve_newlines_def)
qed

text \<open>
  What both resolvers do with a failed request. For every book code and number, and every
  network whose answers at the base address and at the alternate address are pages or
  exceptions of class \<^verbatim>\<open>Exception\<close>: the resolver returns a tuple (no exception leaves
  it). An HTTP error at the base address, and any other failure there whose text does not
  contain \<^verbatim>\<open>no such song\<close>, has its warning in the returned list. When the base address
  gave no usable page, a failure at the alternate address has its warning in the returned
  list, and the result is absent with the alternate address.
\<close>

lemma failures_recorded:
  assumes "responses s (build_alkitab_url bk no) \<noteq> Inl KeyboardInterrupt"
    and "responses s (build_alkitab_url bk no @ ustr ''A'') \<noteq> Inl KeyboardInterrupt"
  shows "(\<exists>blocks url warns.
     fst (fetch_lyrics_from_alkitab soup s bk no) = Inr (blocks, url, warns)
     \<and> (\<forall>r m. responses s (build_alkitab_url bk no) = Inl (HTTPError r m) \<longrightarrow>
           (if status_text r = ustr ''404''
            then ustr ''HTTP 404 at alkitab.app (base); retry with 'A' suffix.''
            else ustr ''alkitab.app fetch failed (base): HTTP '' @ status_text r) \<in> set warns)
     \<and> (\<forall>m. responses s (build_alkitab_url bk no) = Inl (OtherException m)
             \<and> \<not> contains (ustr ''no such song'') (str_lower m) \<longrightarrow>
           ustr ''alkitab.app parse error (base): '' @ m \<in> set warns)
     \<and> (\<forall>r m. (\<forall>h. responses s (build_alkitab_url bk no) = Inr h \<longrightarrow> page_says_no_such_song h)
             \<and> responses s (build_alkitab_url bk no @ ustr ''A'') = Inl (HTTPError r m) \<longrightarrow>
           blocks = None \<and> url = build_alkitab_url bk no @ ustr ''A''
           \<and> ustr ''alkitab.app fetch failed (A variant): HTTP '' @ status_text r \<in> set warns)
     \<and> (\<forall>m. (\<forall>h. responses s (build_alkitab_url bk no) = Inr h \<longrightarrow> page_says_no_such_song h)
             \<and> responses s (build_alkitab_url bk no @ ustr ''A'') = Inl (OtherException m) \<longrightarrow>
           blocks = None \<and> url = build_alkitab_url bk no @ ustr ''A'' \<and> ustr ''alkitab.app parse error (A variant): '' @ m \<in> set warns))
   \<and> (\<exists>blocks url warns.
     fst (fetch_lyrics_from_alkitab_nkb24 soup s bk no) = Inr (blocks, url, warns)
     \<and> (\<forall>r m. responses s (build_alkitab_url bk no) = Inl (HTTPError r m) \<longrightarrow>
           (if status_text_nkb24 r = ustr ''404''
            then ustr ''HTTP 404 (base); will try 'A'.''
            else ustr ''HTTP '' @ status_text_nkb24 r @ ustr '' (base)'') \<in> set warns)
     \<and> (\<forall>m. responses s (build_alkitab_url bk no) = Inl (OtherException m)
             \<and> \<not> contains (ustr ''no such song'') (str_lower m) \<longrightarrow>
           ustr ''parse error (base): '' @ m \<in> set warns)
     \<and> (\<forall>e. (\<forall>h. responses s (build_alkitab_url bk no) = Inr h \<longrightarrow> page_says_no_such_song h)
             \<and> responses s (build_alkitab_url bk no @ ustr ''A'') = Inl e \<longrightarrow>
           blocks = None \<and> url = build_alkitab_url bk no @ ustr ''A'' \<and> ustr ''A-suffix fetch/parse error: '' @ exn_text e \<in> set warns))"
  using failures_caught_kj [OF assms] failures_caught_nkb24 [OF assms] by (rule conjI)

lemma failures_recorded_example:
  "(\<exists>blocks url warns.
      fst (fetch_lyrics_from_alkitab example_soup
             (example_session (Inl (HTTPError (Some 404) (ustr ''404 Client Error: Not Found'')))
                (Inl (OtherException (ustr ''Read timed out.'')))) (ustr ''NKB'') 24)
        = Inr (blocks, url, warns)
      \<and> ustr ''HTTP 404 at alkitab.app (base); retry with 'A' suffix.'' \<in> set warns
      \<and> blocks = None \<and> url = ustr ''https://alkitab.app/NKB/24A''
      \<and> ustr ''alkitab.app parse error (A variant): Read timed out.'' \<in> set warns)
   \<and> (\<exists>blocks url warns.
      fst (fetch_lyrics_from_alkitab_nkb24 example_soup
             (example_session (Inl (HTTPError (Some 404) (ustr ''404 Client Error: Not Found'')))
                (Inl (OtherException (ustr ''Read timed out.'')))) (ustr ''NKB'') 24)
        = Inr (blocks, url, warns)
      \<and> ustr ''HTTP ? (base)'' \<in> set warns
      \<and> blocks = None \<and> url = ustr ''https://alkitab.app/NKB/24A''
      \<and> ustr ''A-suffix fetch/parse error: Read timed out.'' \<in> set warns)"
proof -
  let ?s = "example_session (Inl (HTTPError (Some 404) (ustr ''404 Client Error: Not Found'')))
                (Inl (OtherException (ustr ''Read timed out.'')))"
  have 1: "responses ?s (build_alkitab_url (ustr ''NKB'') 24) \<noteq> Inl KeyboardInterrupt"
    by (simp add: example_facts)
  have 2: "responses ?s (build_alkitab_url (ustr ''NKB'') 24 @ ustr ''A'') \<noteq> Inl KeyboardInterrupt"
    by (simp add: example_facts)
  have 3: "status_text (Some 404) = ustr ''404''"
    by (simp add: status_text_def str_of_int_def str_of_nat.simps ustr_def)
  have 4: "status_text_nkb24 (Some 404) = ustr ''?''"
    by (simp add: status_text_nkb24_def response_ok_def)
  have 5: "ustr ''?'' \<noteq> ustr ''404''" by (simp add: ustr_def)
  have 6: "ustr ''alkitab.app parse error (A variant): '' @ ustr ''Read timed out.''
           = ustr ''alkitab.app parse error (A variant): Read timed out.''"
    "ustr ''A-suffix fetch/parse error: '' @ ustr ''Read timed out.''
           = ustr ''A-suffix fetch/parse error: Read timed out.''"
    "ustr ''HTTP '' @ ustr ''?'' @ ustr '' (base)'' = ustr ''HTTP ? (base)''"
    by (simp_all add: ustr_def)
  from failures_recorded [OF 1 2, of example_soup] show ?thesis
    by (simp add: example_facts 3 4 5 6 exn_text_def)
qed

text \<open>
  Claim C3 says that the resolver never lets a transport error reach its caller and that
  any fetch failure at either stage becomes a warning in the returned tuple. The second
  handler of the first stage tells the resolver's own \<^verbatim>\<open>ValueError("no such song ...")\<close> from
  other exceptions by the text alone; its other branch carries the comment
  \<^verbatim>\<open># unexpected error, proceed to 'A' attempt but record\<close>. A transport error whose text
  holds these words (here a proxy that refuses the tunnel with them) is taken for the
  signal: it is caught, the alternate address is tried, and the returned list holds the
  note of the fallback only. Nothing in the result records the failure at the base
  address. Both scrapers' resolvers do so.
\<close>

theorem sentinel_text_unrecorded:
  "responses (example_session
       (Inl (OtherException (ustr ''Tunnel connection failed: 404 No such song'')))
       (Inr page_lyrics)) (build_alkitab_url (ustr ''NKB'') 24)
     = Inl (OtherException (ustr ''Tunnel connection failed: 404 No such song''))
   \<and> fst (fetch_lyrics_from_alkitab example_soup
        (example_session
           (Inl (OtherException (ustr ''Tunnel connection failed: 404 No such song'')))
           (Inr page_lyrics)) (ustr ''NKB'') 24)
     = Inr (Some (one_verse (ustr ''Amin'')), ustr ''https://alkitab.app/NKB/24A'',
            [ustr ''used 'A' suffix fallback.''])
   \<and> fst (fetch_lyrics_from_alkitab_nkb24 example_soup
        (example_session
           (Inl (OtherException (ustr ''Tunnel connection failed: 404 No such song'')))
           (Inr page_lyrics)) (ustr ''NKB'') 24)
     = Inr (Some (one_verse (ustr ''Amin'')), ustr ''https://alkitab.app/NKB/24A'',
            [ustr ''used 'A' suffix fallback.''])"
proof -
  let ?e = "OtherException (ustr ''Tunnel connection failed: 404 No such song'')"
  let ?s = "example_session (Inl ?e) (Inr page_lyrics)"
  have 1: "responses ?s (ustr ''https://alkitab.app/NKB/24'') = Inl ?e"
    by (simp add: example_facts)
  have 2: "contains (ustr ''no such song'')
             (str_lower (ustr ''Tunnel connection failed: 404 No such song''))"
    by (simp add: ustr_def str_lower_def)
  have 3: "responses (asked ?s (ustr ''https://alkitab.app/NKB/24''))
             (ustr ''https://alkitab.app/NKB/24A'') = Inr page_lyrics"
    by (simp add: example_facts)
  have 4: "\<not> page_says_no_such_song page_lyrics" by (simp add: example_facts)
  have 5: "\<not> (no_blocks (parse_alkitab_page example_soup page_lyrics)
             \<or> all_parts_empty (parse_alkitab_page example_soup page_lyrics))"
    by (simp add: example_facts no_blocks_def all_parts_empty_def one_verse_def)
  from alt_stage_page [OF 3 4, of example_soup "[]"] 5
  have a: "alt_stage example_soup (asked ?s (ustr ''https://alkitab.app/NKB/24''))
             (ustr ''https://alkitab.app/NKB/24A'') [] =
           (Inr (Some (one_verse (ustr ''Amin'')), ustr ''https://alkitab.app/NKB/24A'',
                 [ustr ''used 'A' suffix fallback.'']),
            asked (asked ?s (ustr ''https://alkitab.app/NKB/24'')) (ustr ''https://alkitab.app/NKB/24A''))"
    by (auto simp: example_facts)
  from alt_stage_nkb24_page [OF 3 4, of example_soup "[]"] 5
  have b: "alt_stage_nkb24 example_soup (asked ?s (ustr ''https://alkitab.app/NKB/24''))
             (ustr ''https://alkitab.app/NKB/24A'') [] =
           (Inr (Some (one_verse (ustr ''Amin'')), ustr ''https://alkitab.app/NKB/24A'',
                 [ustr ''used 'A' suffix fallback.'']),
            asked (asked ?s (ustr ''https://alkitab.app/NKB/24'')) (ustr ''https://alkitab.app/NKB/24A''))"
    by (auto simp: example_facts)
  have "fst (fetch_lyrics_from_alkitab example_soup ?s (ustr ''NKB'') 24)
     = Inr (Some (one_verse (ustr ''Amin'')), ustr ''https://alkitab.app/NKB/24A'',
            [ustr ''used 'A' suffix fallback.''])"
    by (simp add: fetch_lyrics_staged url_nkb_24 url_nkb_24A base_attempt_failure [OF 1]
        base_handler_def 2 a)
  moreover
  have "fst (fetch_lyrics_from_alkitab_nkb24 example_soup ?s (ustr ''NKB'') 24)
     = Inr (Some (one_verse (ustr ''Amin'')), ustr ''https://alkitab.app/NKB/24A'',
            [ustr ''used 'A' suffix fallback.''])"
    by (simp add: fetch_lyrics_nkb24_staged url_nkb_24 url_nkb_24A
        base_attempt_nkb24_failure [OF 1] base_handler_nkb24_def 2 b)
  ultimately show ?thesis by (simp add: example_facts)
qed

lemma select_one_None:
  "select_one sel el = None \<longleftrightarrow> (\<forall>n\<in>set (descendants el). \<not> sel_matches sel n)"
proof (cases "select sel el")
  case Nil
  then show ?thesis by (simp add: select_one_def) (simp add: select_def filter_empty_conv)
next
  case (Cons x xs)
  then have "x \<in> set (select sel el)" by simp
  then have "x \<in> set (descendants el)" "sel_matches sel x" by (simp_all add: select_def)
  with Cons show ?thesis by (auto simp: select_one_def)
qed

text \<open>
  Claim C4. For every parsed page, \<open>parse_alkitab_page\<close> returns \<^verbatim>\<open>None\<close> exactly when
  no element below the document is a \<^verbatim>\<open>div\<close> of class \<^verbatim>\<open>lagu\<close>, and it returns the
  empty list exactly when there is such an element and the first one holds no \<^verbatim>\<open>div\<close> of
  class \<^verbatim>\<open>lirik\<close>. The two outcomes are different values.
\<close>

theorem parse_absent_or_empty:
  "(parse_alkitab_page soup html = None \<longleftrightarrow>
      (\<forall>n\<in>set (descendants (soup html)). \<not> sel_matches (TagClass (ustr ''div'') (ustr ''lagu'')) n))
   \<and> (parse_alkitab_page soup html = Some [] \<longleftrightarrow>
      (\<exists>lagu. select_one (TagClass (ustr ''div'') (ustr ''lagu'')) (soup html) = Some lagu
         \<and> (\<forall>n\<in>set (descendants lagu). \<not> sel_matches (TagClass (ustr ''div'') (ustr ''lirik'')) n)))"
proof -
  let ?lagu = "TagClass (ustr ''div'') (ustr ''lagu'')"
  let ?lirik = "TagClass (ustr ''div'') (ustr ''lirik'')"
  have none: "select_one ?lagu (soup html) = None \<longleftrightarrow>
      (\<forall>n\<in>set (descendants (soup html)). \<not> sel_matches ?lagu n)"
    by (simp add: select_one_None)
  have empty: "select ?lirik lagu = [] \<longleftrightarrow>
      (\<forall>n\<in>set (descendants lagu). \<not> sel_matches ?lirik n)" for lagu
    by (simp add: select_def filter_empty_conv)
  show ?thesis
  proof (cases "select_one ?lagu (soup html)")
    case None
    with none show ?thesis by (simp add: parse_alkitab_page_def)
  next
    case (Some lagu)
    with none empty [of lagu] show ?thesis by (simp add: parse_alkitab_page_def)
  qed
qed

theorem parse_absent_or_empty_witness:
  "parse_alkitab_page example_soup page_plain = None
   \<and> parse_alkitab_page example_soup page_empty_lagu = Some []"
proof -
  have "\<forall>n\<in>set (descendants (example_soup page_plain)).
          \<not> sel_matches (TagClass (ustr ''div'') (ustr ''lagu'')) n"
    by (simp add: example_soup_pages ustr_def)
  moreover
  have "select_one (TagClass (ustr ''div'') (ustr ''lagu'')) (example_soup page_empty_lagu)
          = Some (Element (ustr ''div'') [ustr ''lagu''] [])
        \<and> (\<forall>n\<in>set (descendants (Element (ustr ''div'') [ustr ''lagu''] [])).
              \<not> sel_matches (TagClass (ustr ''div'') (ustr ''lirik'')) n)"
    by (simp add: example_soup_pages select_one_def select_def)
  ultimately show ?thesis
    using parse_absent_or_empty [of example_soup page_plain]
      parse_absent_or_empty [of example_soup page_empty_lagu]
    by blast
qed

text \<open>
  Claim C5. The heading \<^verbatim>\<open>"NKB 024, Tuhan Kasihanilah Kami"\<close> is split by
  \<^verbatim>\<open>get_nkb_24.split_title\<close> into \<^verbatim>\<open>("NKB", 24, "Tuhan Kasihanilah Kami")\<close>, as the claim
  says. \<^verbatim>\<open>kjpkjnkb.split_title\<close>, whose pattern has the dash only, finds no book and no
  number in it and returns the whole heading as the title.
\<close>

theorem split_title_comma:
  "split_title_nkb24 (ustr ''NKB 024, Tuhan Kasihanilah Kami'')
     = (Some (ustr ''NKB''), Some 24, Some (ustr ''Tuhan Kasihanilah Kami''))
   \<and> split_title (ustr ''NKB 024, Tuhan Kasihanilah Kami'')
     = (None, None, Some (ustr ''NKB 024, Tuhan Kasihanilah Kami''))"
proof
  show "split_title_nkb24 (ustr ''NKB 024, Tuhan Kasihanilah Kami'')
     = (Some (ustr ''NKB''), Some 24, Some (ustr ''Tuhan Kasihanilah Kami''))"
    by (rule split_title_nkb24_comma)
  have "TITLE_RE (ustr ''NKB 024, Tuhan Kasihanilah Kami'') = None"
    by (simp add: TITLE_RE_def match_code_def imatch_def ieq_def isspace_def isdigit_ascii
        ustr_def Let_def)
  moreover have "ustr ''NKB 024, Tuhan Kasihanilah Kami'' \<noteq> []" by (simp add: ustr_def)
  ultimately show "split_title (ustr ''NKB 024, Tuhan Kasihanilah Kami'')
     = (None, None, Some (ustr ''NKB 024, Tuhan Kasihanilah Kami''))"
    by (simp add: split_title_def title_normal nonempty_def)
qed

text \<open>
  Claim C6. When the fetch of the base address succeeds, the page does not carry the
  marker, and parsing gives \<^verbatim>\<open>None\<close> or a list in which no block has a part (the empty
  list included), the resolver returns that parse result with the base address and one
  warning, and the session has asked for the base address only.
\<close>

theorem base_result_kept:
  assumes "responses s (build_alkitab_url bk no) = Inr html"
    and "\<not> page_says_no_such_song html"
    and "parse_alkitab_page soup html = pr"
    and "pr = None \<or> (\<exists>bl. pr = Some bl \<and> list_all (\<lambda>b. parts b = []) bl)"
  shows "(\<exists>w. fetch_lyrics_from_alkitab soup s bk no =
            (Inr (pr, build_alkitab_url bk no, [w]),
             s\<lparr>requested := requested s @ [build_alkitab_url bk no]\<rparr>))
       \<and> (\<exists>w. fetch_lyrics_from_alkitab_nkb24 soup s bk no =
            (Inr (pr, build_alkitab_url bk no, [w]),
             s\<lparr>requested := requested s @ [build_alkitab_url bk no]\<rparr>))"
proof -
  from assms(3,4) have e: "no_blocks (parse_alkitab_page soup html) \<or> all_parts_empty (parse_alkitab_page soup html)"
    by (auto simp: no_blocks_def all_parts_empty_def)
  from base_attempt_page [OF assms(1,2), of soup "[]"] e assms(3)
  have "\<exists>w. fetch_lyrics_from_alkitab soup s bk no =
            (Inr (pr, build_alkitab_url bk no, [w]), asked s (build_alkitab_url bk no))"
    by (auto simp: fetch_lyrics_staged length_Suc_conv le_Suc_eq)
  moreover
  from base_attempt_nkb24_page [OF assms(1,2), of soup "[]"] e assms(3)
  have "\<exists>w. fetch_lyrics_from_alkitab_nkb24 soup s bk no =
            (Inr (pr, build_alkitab_url bk no, [w]), asked s (build_alkitab_url bk no))"
    by (auto simp: fetch_lyrics_nkb24_staged length_Suc_conv le_Suc_eq)
  ultimately show ?thesis by (simp add: asked_def)
qed

theorem base_result_kept_witness:
  "(\<exists>w. fetch_lyrics_from_alkitab example_soup
          (example_session (Inr page_empty_lagu) (Inr page_lyrics)) (ustr ''NKB'') 24 =
        (Inr (Some [], ustr ''https://alkitab.app/NKB/24'', [w]),
         (example_session (Inr page_empty_lagu) (Inr page_lyrics))
           \<lparr>requested := [ustr ''https://alkitab.app/NKB/24'']\<rparr>))
   \<and> (\<exists>w. fetch_lyrics_from_alkitab_nkb24 example_soup
          (example_session (Inr page_empty_lagu) (Inr page_lyrics)) (ustr ''NKB'') 24 =
        (Inr (Some [], ustr ''https://alkitab.app/NKB/24'', [w]),
         (example_session (Inr page_empty_lagu) (Inr page_lyrics))
           \<lparr>requested := [ustr ''https://alkitab.app/NKB/24'']\<rparr>))"
proof -
  let ?s = "example_session (Inr page_empty_lagu) (Inr page_lyrics)"
  have 1: "responses ?s (build_alkitab_url (ustr ''NKB'') 24) = Inr page_empty_lagu"
    by (simp add: example_facts)
  have 2: "\<not> page_says_no_such_song page_empty_lagu" by (simp add: example_facts)
  have 3: "parse_alkitab_page example_soup page_empty_lagu = Some []" by (simp add: example_facts)
  have 4: "Some [] = None \<or> (\<exists>bl. Some [] = Some bl \<and> list_all (\<lambda>b. parts b = []) bl)"
    by simp
  have 5: "requested ?s = []" by (simp add: example_session_def)
  from base_result_kept [OF 1 2 3 4] show ?thesis by (simp add: url_nkb_24 5)
qed

text \<open>
  Claim C7, as amended. When the page at the base address carries the marker, the fetch of
  the alternate address succeeds, the alternate page does not carry the marker, and it
  parses into a non-empty list of blocks of which at least one has a part, the resolver
  returns those blocks, the alternate address, and the two warnings: the note of the
  marker first, the note of the fallback second.
\<close>

theorem fallback_used:
  assumes "responses s (build_alkitab_url bk no) = Inr html"
    and "page_says_no_such_song html"
    and "responses s (build_alkitab_url bk no @ ustr ''A'') = Inr html_a"
    and "\<not> page_says_no_such_song html_a"
    and "parse_alkitab_page soup html_a = Some bl"
    and "bl \<noteq> []"
    and "\<not> list_all (\<lambda>b. parts b = []) bl"
  shows "fetch_lyrics_from_alkitab soup s bk no =
           (Inr (Some bl, build_alkitab_url bk no @ ustr ''A'',
                 [ustr ''alkitab.app responded 'no such song' (base); retry with 'A' suffix.'',
                  ustr ''used 'A' suffix fallback.'']),
            s\<lparr>requested := requested s @ [build_alkitab_url bk no, build_alkitab_url bk no @ ustr ''A'']\<rparr>)
       \<and> fetch_lyrics_from_alkitab_nkb24 soup s bk no =
           (Inr (Some bl, build_alkitab_url bk no @ ustr ''A'',
                 [ustr ''alkitab.app says 'no such song' (base); will try 'A'.'',
                  ustr ''used 'A' suffix fallback.'']),
            s\<lparr>requested := requested s @ [build_alkitab_url bk no, build_alkitab_url bk no @ ustr ''A'']\<rparr>)"
proof -
  let ?u = "build_alkitab_url bk no"
  let ?a = "?u @ ustr ''A''"
  from assms(5-7) have v: "\<not> (no_blocks (parse_alkitab_page soup html_a)
      \<or> all_parts_empty (parse_alkitab_page soup html_a))"
    by (simp add: no_blocks_def all_parts_empty_def)
  have ra: "responses (asked s ?u) ?a = Inr html_a" using assms(3) by simp
  have twice: "asked (asked s ?u) ?a = s\<lparr>requested := requested s @ [?u, ?a]\<rparr>"
    by (simp add: asked_def)
  from alt_stage_page [OF ra assms(4), of soup] v assms(5)
  have "alt_stage soup (asked s ?u) ?a ws =
          (Inr (Some bl, ?a, ws @ [ustr ''used 'A' suffix fallback.'']), asked (asked s ?u) ?a)" for ws
    by (metis append_Nil)
  then have 1: "fetch_lyrics_from_alkitab soup s bk no =
           (Inr (Some bl, ?a,
                 [ustr ''alkitab.app responded 'no such song' (base); retry with 'A' suffix.'',
                  ustr ''used 'A' suffix fallback.'']), asked (asked s ?u) ?a)"
    by (simp add: fetch_lyrics_staged base_attempt_marker [OF assms(1,2)] base_handler_own_signal)
  from alt_stage_nkb24_page [OF ra assms(4), of soup] v assms(5)
  have "alt_stage_nkb24 soup (asked s ?u) ?a ws =
          (Inr (Some bl, ?a, ws @ [ustr ''used 'A' suffix fallback.'']), asked (asked s ?u) ?a)" for ws
    by (metis append_Nil)
  then have 2: "fetch_lyrics_from_alkitab_nkb24 soup s bk no =
           (Inr (Some bl, ?a,
                 [ustr ''alkitab.app says 'no such song' (base); will try 'A'.'',
                  ustr ''used 'A' suffix fallback.'']), asked (asked s ?u) ?a)"
    by (simp add: fetch_lyrics_nkb24_staged base_attempt_nkb24_marker [OF assms(1,2)]
        base_handler_nkb24_own_signal)
  from 1 2 show ?thesis by (simp only: twice)
qed

theorem fallback_used_witness:
  "fetch_lyrics_from_alkitab example_soup
      (example_session (Inr page_marker) (Inr page_lyrics)) (ustr ''NKB'') 24 =
     (Inr (Some (one_verse (ustr ''Amin'')), ustr ''https://alkitab.app/NKB/24A'',
           [ustr ''alkitab.app responded 'no such song' (base); retry with 'A' suffix.'',
            ustr ''used 'A' suffix fallback.'']),
      (example_session (Inr page_marker) (Inr page_lyrics))
        \<lparr>requested := [ustr ''https://alkitab.app/NKB/24'', ustr ''https://alkitab.app/NKB/24A'']\<rparr>)
   \<and> fetch_lyrics_from_alkitab_nkb24 example_soup
      (example_session (Inr page_marker) (Inr page_lyrics)) (ustr ''NKB'') 24 =
     (Inr (Some (one_verse (ustr ''Amin'')), ustr ''https://alkitab.app/NKB/24A'',
           [ustr ''alkitab.app says 'no such song' (base); will try 'A'.'',
            ustr ''used 'A' suffix fallback.'']),
      (example_session (Inr page_marker) (Inr page_lyrics))
        \<lparr>requested := [ustr ''https://alkitab.app/NKB/24'', ustr ''https://alkitab.app/NKB/24A'']\<rparr>)"
proof -
  let ?s = "example_session (Inr page_marker) (Inr page_lyrics)"
  have 1: "responses ?s (build_alkitab_url (ustr ''NKB'') 24) = Inr page_marker"
    by (simp add: example_facts)
  have 2: "page_says_no_such_song page_marker" by (simp add: example_facts)
  have 3: "responses ?s (build_alkitab_url (ustr ''NKB'') 24 @ ustr ''A'') = Inr page_lyrics"
    by (simp add: example_facts)
  have 4: "\<not> page_says_no_such_song page_lyrics" by (simp add: example_facts)
  have 5: "parse_alkitab_page example_soup page_lyrics = Some (one_verse (ustr ''Amin''))"
    by (simp add: example_facts)
  have 6: "one_verse (ustr ''Amin'') \<noteq> []" by (simp add: one_verse_def)
  have 7: "\<not> list_all (\<lambda>b. parts b = []) (one_verse (ustr ''Amin''))" by (simp add: one_verse_def)
  have 8: "requested ?s = []" by (simp add: example_session_def)
  from fallback_used [OF 1 2 3 4 5 6 7] show ?thesis
    by (simp only: url_nkb_24 url_nkb_24A 8 append_Nil)
qed

text \<open>
  The claim as first stated does not ask that the alternate page is free of the marker.
  The resolver looks for the marker in the page text before it parses: an alternate page
  with a verse that holds the words parses into a block with a part, and yet the resolver
  returns \<^verbatim>\<open>None\<close> and no note of the fallback.
\<close>

theorem fallback_marked_counterexample:
  "responses (example_session (Inr page_marker) (Inr page_lyrics_marked))
      (build_alkitab_url (ustr ''NKB'') 24) = Inr page_marker
   \<and> page_says_no_such_song page_marker
   \<and> responses (example_session (Inr page_marker) (Inr page_lyrics_marked))
      (build_alkitab_url (ustr ''NKB'') 24 @ ustr ''A'') = Inr page_lyrics_marked
   \<and> parse_alkitab_page example_soup page_lyrics_marked = Some (one_verse (ustr ''No such song''))
   \<and> one_verse (ustr ''No such song'') \<noteq> []
   \<and> \<not> list_all (\<lambda>b. parts b = []) (one_verse (ustr ''No such song''))
   \<and> fst (fetch_lyrics_from_alkitab example_soup
        (example_session (Inr page_marker) (Inr page_lyrics_marked)) (ustr ''NKB'') 24) =
       Inr (None, ustr ''https://alkitab.app/NKB/24A'',
            [ustr ''alkitab.app responded 'no such song' (base); retry with 'A' suffix.'',
             ustr ''alkitab.app responded 'no such song' (A variant).''])
   \<and> fst (fetch_lyrics_from_alkitab_nkb24 example_soup
        (example_session (Inr page_marker) (Inr page_lyrics_marked)) (ustr ''NKB'') 24) =
       Inr (None, ustr ''https://alkitab.app/NKB/24A'',
            [ustr ''alkitab.app says 'no such song' (base); will try 'A'.'',
             ustr ''alkitab.app says 'no such song' (A).''])"
proof -
  let ?s = "example_session (Inr page_marker) (Inr page_lyrics_marked)"
  have 1: "responses ?s (ustr ''https://alkitab.app/NKB/24'') = Inr page_marker"
    by (simp add: example_facts)
  have 2: "page_says_no_such_song page_marker" by (simp add: example_facts)
  have 3: "responses (asked ?s (ustr ''https://alkitab.app/NKB/24''))
             (ustr ''https://alkitab.app/NKB/24A'') = Inr page_lyrics_marked"
    by (simp add: example_facts)
  have 4: "page_says_no_such_song page_lyrics_marked" by (simp add: example_facts)
  have a: "fst (fetch_lyrics_from_alkitab example_soup ?s (ustr ''NKB'') 24) =
       Inr (None, ustr ''https://alkitab.app/NKB/24A'',
            [ustr ''alkitab.app responded 'no such song' (base); retry with 'A' suffix.'',
             ustr ''alkitab.app responded 'no such song' (A variant).''])"
    by (simp add: fetch_lyrics_staged url_nkb_24 url_nkb_24A base_attempt_marker [OF 1 2]
        base_handler_own_signal alt_stage_marker [OF 3 4])
  have b: "fst (fetch_lyrics_from_alkitab_nkb24 example_soup ?s (ustr ''NKB'') 24) =
       Inr (None, ustr ''https://alkitab.app/NKB/24A'',
            [ustr ''alkitab.app says 'no such song' (base); will try 'A'.'',
             ustr ''alkitab.app says 'no such song' (A).''])"
    by (simp add: fetch_lyrics_nkb24_staged url_nkb_24 url_nkb_24A
        base_attempt_nkb24_marker [OF 1 2] base_handler_nkb24_own_signal
        alt_stage_nkb24_marker [OF 3 4])
  show ?thesis using a b
    by (simp add: example_facts one_verse_def)
qed

text \<open>
  Claim C8, as amended. For every input string the output of the normalizer never holds
  three newline characters in a row. A run of blank lines is a newline, white space of any
  kind (further newlines included), and a newline; one blank line and three or more are
  both of this form. When such a run stands between two texts that each hold a character
  that is not white space, the output is the first text normalized (which is not empty),
  exactly one blank line, and the second text normalized. White space at the end or at
  the start of the input, blank lines included, leaves no trace in the output.
\<close>

theorem normalize_newline_runs:
  "(\<exists>t. normalize_preserve_newlines (Some s) = Some t \<and> normalize (Some s) = Some t
      \<and> (\<forall>x y. t \<noteq> x @ [NL, NL, NL] @ y))
   \<and> (\<forall>m ta tb. (\<forall>c\<in>set m. isspace c)
         \<and> (\<exists>c\<in>set a. \<not> isspace c) \<and> (\<exists>c\<in>set b. \<not> isspace c)
         \<and> normalize_preserve_newlines (Some a) = Some ta
         \<and> normalize_preserve_newlines (Some b) = Some tb \<longrightarrow>
         ta \<noteq> [] \<and> tb \<noteq> []
         \<and> normalize_preserve_newlines (Some (a @ [NL] @ m @ [NL] @ b)) = Some (ta @ [NL, NL] @ tb)
         \<and> normalize (Some (a @ [NL] @ m @ [NL] @ b)) = Some (ta @ [NL, NL] @ tb))
   \<and> (\<forall>g. (\<forall>c\<in>set g. isspace c) \<longrightarrow>
         normalize_preserve_newlines (Some (a @ g)) = normalize_preserve_newlines (Some a)
         \<and> normalize_preserve_newlines (Some (g @ a)) = normalize_preserve_newlines (Some a)
         \<and> normalize (Some (a @ g)) = normalize (Some a)
         \<and> normalize (Some (g @ a)) = normalize (Some a))"
proof (intro conjI allI impI)
  have "run3free (normalize_str s)"
    using normal_form_normalize [of s] by (simp add: normal_form_def)
  then have "\<forall>x y. normalize_str s \<noteq> x @ [NL, NL, NL] @ y"
    using run3free_no_triple by blast
  then show "\<exists>t. normalize_preserve_newlines (Some s) = Some t \<and> normalize (Some s) = Some t
      \<and> (\<forall>x y. t \<noteq> x @ [NL, NL, NL] @ y)"
    by (simp add: normalize_eq normalize_preserve_newlines_Some)
next
  fix m ta tb
  assume h: "(\<forall>c\<in>set m. isspace c)
         \<and> (\<exists>c\<in>set a. \<not> isspace c) \<and> (\<exists>c\<in>set b. \<not> isspace c)
         \<and> normalize_preserve_newlines (Some a) = Some ta
         \<and> normalize_preserve_newlines (Some b) = Some tb"
  then have n: "normalize_str a = ta" "normalize_str b = tb"
    by (simp_all add: normalize_preserve_newlines_Some)
  from h have "normalize_str a \<noteq> []" "normalize_str b \<noteq> []"
    by (simp_all add: normalize_str_empty_iff)
  with n show ne: "ta \<noteq> []" "tb \<noteq> []" by simp_all
  with h n normalize_str_blank_lines [of m a b]
  have e: "normalize_str (a @ [NL] @ m @ [NL] @ b) = ta @ [NL, NL] @ tb" by simp
  then show "normalize_preserve_newlines (Some (a @ [NL] @ m @ [NL] @ b)) = Some (ta @ [NL, NL] @ tb)"
    by (simp only: normalize_preserve_newlines_Some)
  from e show "normalize (Some (a @ [NL] @ m @ [NL] @ b)) = Some (ta @ [NL, NL] @ tb)"
    by (simp only: normalize_eq normalize_preserve_newlines_Some)
next
  fix g
  assume g: "\<forall>c\<in>set g. isspace c"
  show "normalize_preserve_newlines (Some (a @ g)) = normalize_preserve_newlines (Some a)"
    by (simp only: normalize_preserve_newlines_Some normalize_str_trailing_space [OF g])
  show "normalize_preserve_newlines (Some (g @ a)) = normalize_preserve_newlines (Some a)"
    by (simp only: normalize_preserve_newlines_Some normalize_str_leading_space [OF g])
  show "normalize (Some (a @ g)) = normalize (Some a)"
    by (simp only: normalize_eq normalize_preserve_newlines_Some normalize_str_trailing_space [OF g])
  show "normalize (Some (g @ a)) = normalize (Some a)"
    by (simp only: normalize_eq normalize_preserve_newlines_Some normalize_str_leading_space [OF g])
qed

theorem normalize_newline_runs_witness:
  "normalize_preserve_newlines (Some (ustr ''a'' @ [NL] @ [NL, 32, NL] @ [NL] @ ustr ''b''))
     = Some (ustr ''a'' @ [NL, NL] @ ustr ''b'')
   \<and> normalize (Some (ustr ''a'' @ [NL] @ [NL, 32, NL] @ [NL] @ ustr ''b''))
     = Some (ustr ''a'' @ [NL, NL] @ ustr ''b'')
   \<and> normalize_preserve_newlines (Some (ustr ''a'' @ [NL, 32, NL])) = Some (ustr ''a'')
   \<and> normalize_preserve_newlines (Some ([NL, 32, NL] @ ustr ''a'')) = Some (ustr ''a'')"
proof -
  have sp: "\<forall>c\<in>set [NL, 32, NL]. isspace c" by (simp add: isspace_def)
  have na: "normalize_preserve_newlines (Some (ustr ''a'')) = Some (ustr ''a'')"
    and nb: "normalize_preserve_newlines (Some (ustr ''b'')) = Some (ustr ''b'')"
    by (simp_all only: normalize_preserve_newlines_Some normalize_eval_letter)
  have ne: "\<exists>c\<in>set (ustr ''a''). \<not> isspace c" "\<exists>c\<in>set (ustr ''b''). \<not> isspace c"
    by (simp_all add: ustr_def isspace_def)
  note t = normalize_newline_runs [of "[]" "ustr ''a''" "ustr ''b''"]
  from t sp na nb ne
  have "normalize_preserve_newlines (Some (ustr ''a'' @ [NL] @ [NL, 32, NL] @ [NL] @ ustr ''b''))
          = Some (ustr ''a'' @ [NL, NL] @ ustr ''b'')
        \<and> normalize (Some (ustr ''a'' @ [NL] @ [NL, 32, NL] @ [NL] @ ustr ''b''))
          = Some (ustr ''a'' @ [NL, NL] @ ustr ''b'')"
    by blast
  moreover from t sp na
  have "normalize_preserve_newlines (Some (ustr ''a'' @ [NL, 32, NL])) = Some (ustr ''a'')
        \<and> normalize_preserve_newlines (Some ([NL, 32, NL] @ ustr ''a'')) = Some (ustr ''a'')"
    by metis
  ultimately show ?thesis by blast
qed

text \<open>
  The claim as first stated says that a run of three or more blank lines is one blank line
  in the output. At the end (or the start) of the text the final \<^verbatim>\<open>strip()\<close> removes
  it altogether.
\<close>

theorem trailing_run_counterexample:
  "normalize_preserve_newlines (Some (ustr ''a'' @ [NL, NL, NL, NL])) = Some (ustr ''a'')
   \<and> normalize (Some (ustr ''a'' @ [NL, NL, NL, NL])) = Some (ustr ''a'')"
  by (simp only: normalize_eq normalize_preserve_newlines_Some normalize_eval_trailing)

text \<open>
  Claim C9. Whenever the resolver returns \<^verbatim>\<open>None\<close> as its first component, the
  returned list of warnings is not empty.
\<close>

theorem absent_has_warning:
  "(fst (fetch_lyrics_from_alkitab soup s bk no) = Inr (None, url, warns) \<longrightarrow> warns \<noteq> [])
   \<and> (fst (fetch_lyrics_from_alkitab_nkb24 soup s bk no) = Inr (None, url, warns) \<longrightarrow> warns \<noteq> [])"
  using absent_has_warning_kj absent_has_warning_nkb24 by blast

theorem absent_has_warning_witness:
  "(\<exists>warns. fst (fetch_lyrics_from_alkitab example_soup
          (example_session (Inr page_plain) (Inr page_lyrics)) (ustr ''NKB'') 24) =
        Inr (None, ustr ''https://alkitab.app/NKB/24'', warns) \<and> warns \<noteq> [])
   \<and> (\<exists>warns. fst (fetch_lyrics_from_alkitab_nkb24 example_soup
          (example_session (Inr page_plain) (Inr page_lyrics)) (ustr ''NKB'') 24) =
        Inr (None, ustr ''https://alkitab.app/NKB/24'', warns) \<and> warns \<noteq> [])"
proof -
  let ?s = "example_session (Inr page_plain) (Inr page_lyrics)"
  have 1: "responses ?s (build_alkitab_url (ustr ''NKB'') 24) = Inr page_plain"
    by (simp add: example_facts)
  have 2: "\<not> page_says_no_such_song page_plain" by (simp add: example_facts)
  from base_attempt_page [OF 1 2, of example_soup "[]"]
  obtain w1 where a: "fst (fetch_lyrics_from_alkitab example_soup ?s (ustr ''NKB'') 24) =
        Inr (None, ustr ''https://alkitab.app/NKB/24'', w1)"
    by (auto simp: fetch_lyrics_staged example_facts)
  from base_attempt_nkb24_page [OF 1 2, of example_soup "[]"]
  obtain w2 where b: "fst (fetch_lyrics_from_alkitab_nkb24 example_soup ?s (ustr ''NKB'') 24) =
        Inr (None, ustr ''https://alkitab.app/NKB/24'', w2)"
    by (auto simp: fetch_lyrics_nkb24_staged example_facts)
  from absent_has_warning [of example_soup ?s "ustr ''NKB''" 24 "ustr ''https://alkitab.app/NKB/24''" w1] a
  have "w1 \<noteq> []" by simp
  moreover
  from absent_has_warning [of example_soup ?s "ustr ''NKB''" 24 "ustr ''https://alkitab.app/NKB/24''" w2] b
  have "w2 \<noteq> []" by simp
  ultimately show ?thesis using a b by simp
qed

lemma join_not_Nil: "l \<noteq> [] \<Longrightarrow> str_join sep (l # ls) \<noteq> []"
  by (cases ls) auto

lemma dumps_blocks_empty_iff:
  "dumps (JArray (map json_of_block bl)) = ustr ''[]'' \<longleftrightarrow> bl = []"
proof (cases bl)
  case Nil
  then show ?thesis by (simp add: ustr_def)
next
  case (Cons b bs)
  have "dumps (json_of_block b) \<noteq> []" by (simp add: json_of_block_def ustr_def)
  then have "str_join (ustr '', '') (map dumps (map json_of_block (b # bs))) \<noteq> []"
    by (simp add: join_not_Nil)
  with Cons show ?thesis by (simp add: ustr_def)
qed

text \<open>
  Claim C10. The \<open>lirik_json\<close> of every row built by \<open>to_db_row\<close> and by
  \<^verbatim>\<open>get_nkb_24.main\<close> is present (never NULL) and is the JSON text of the array that
  holds one object for each lyric block, in order. The text starts with \<^verbatim>\<open>[\<close> and ends
  with \<^verbatim>\<open>]\<close>; it is \<^verbatim>\<open>[]\<close> exactly when the lyrics are absent or an empty list, so
  both builders store \<^verbatim>\<open>[]\<close> for absent lyrics. The last part shows the text stored for
  one verse.
\<close>

theorem lirik_json_never_null:
  \<open>lirik_json (to_db_row m src lirik_list lyrics_src ws utcnow)
     = Some (dumps (JArray (map json_of_block (or_empty lirik_list))))
   \<and> lirik_json (main_row m lirik_list lyrics_src ws utcnow)
     = Some (dumps (JArray (map json_of_block (or_empty lirik_list))))
   \<and> (\<exists>body. dumps (JArray (map json_of_block (or_empty lirik_list))) = ustr ''['' @ body @ ustr '']'')
   \<and> (dumps (JArray (map json_of_block (or_empty lirik_list))) = ustr ''[]''
        \<longleftrightarrow> lirik_list = None \<or> lirik_list = Some [])
   \<and> lirik_json (to_db_row m src None lyrics_src ws utcnow) = Some (ustr ''[]'')
   \<and> lirik_json (main_row m None lyrics_src ws utcnow) = Some (ustr ''[]'')
   \<and> dumps (JArray (map json_of_block (one_verse (ustr ''Amin''))))
     = ustr ''[{"lirik_no": null, "parts": [{"type": "bait", "no": null, "text": "Amin"}]}]''\<close>
proof -
  have a: "lirik_json (to_db_row m src lirik_list lyrics_src ws utcnow)
      = Some (dumps (JArray (map json_of_block (or_empty lirik_list))))"
    by (simp add: to_db_row_def Let_def)
  have b: "lirik_json (main_row m lirik_list lyrics_src ws utcnow)
      = Some (dumps (JArray (map json_of_block (or_empty lirik_list))))"
    by (simp add: main_row_def)
  have c: "\<exists>body. dumps (JArray (map json_of_block (or_empty lirik_list))) = ustr ''['' @ body @ ustr '']''"
    by simp
  have d: "dumps (JArray (map json_of_block (or_empty lirik_list))) = ustr ''[]''
        \<longleftrightarrow> lirik_list = None \<or> lirik_list = Some []"
  proof (cases lirik_list)
    case None
    then show ?thesis by (simp add: or_empty_def ustr_def)
  next
    case (Some bl)
    then show ?thesis using dumps_blocks_empty_iff [of bl] by (simp add: or_empty_def del: dumps.simps)
  qed
  have e: \<open>dumps (JArray (map json_of_block (one_verse (ustr ''Amin''))))
     = ustr ''[{"lirik_no": null, "parts": [{"type": "bait", "no": null, "text": "Amin"}]}]''\<close>
    by (simp add: one_verse_def json_of_block_def json_of_part_def json_of_opt_def
        encode_basestring_def json_escape_def ustr_def)
  have f: "lirik_json (to_db_row m src None lyrics_src ws utcnow) = Some (ustr ''[]'')"
    "lirik_json (main_row m None lyrics_src ws utcnow) = Some (ustr ''[]'')"
    by (simp_all add: to_db_row_def main_row_def or_empty_def Let_def ustr_def)
  from a b c d e f show ?thesis by blast
qed

end
